theory Spec2Isabelle
  imports Complex_Main
begin

section \<open>Data model (src/types.ts)\<close>

text \<open>
  The TypeScript interfaces of \<^verbatim>\<open>types.ts\<close> as records. The string unions
  \<^verbatim>\<open>'user' | 'mary'\<close>, \<^verbatim>\<open>'search' | 'maps' | 'review'\<close> and
  \<^verbatim>\<open>'up' | 'down'\<close> are datatypes. An optional field is an \<open>option\<close>
  (\<open>None\<close> for \<^verbatim>\<open>undefined\<close> or \<^verbatim>\<open>null\<close>). The fields \<^verbatim>\<open>id\<close>,
  \<^verbatim>\<open>text\<close> and \<^verbatim>\<open>type\<close> are written \<open>entry_id\<close>, \<open>entry_text\<close>
  and \<open>source_type\<close>. A JavaScript \<^verbatim>\<open>number\<close> that holds a time stamp of
  \<^verbatim>\<open>Date.now()\<close> is an \<open>int\<close>; a number that is only compared or scaled is a
  \<open>rat\<close> (the finite values; \<^verbatim>\<open>NaN\<close> and the infinities are outside the model).

  \<^verbatim>\<open>types.ts\<close> declares the id of an entry a number. The append updaters of the hook
  store \<^verbatim>\<open>currentUserTranscriptIdRef.current!\<close>, which is \<^verbatim>\<open>null\<close> when the
  updater runs after the reference was reset, so \<open>entry_id\<close> is an \<open>int option\<close> with
  \<open>None\<close> for \<^verbatim>\<open>null\<close>; \<^verbatim>\<open>===\<close> on ids is equality of such values.
\<close>

datatype speaker = User | Mary

datatype source_kind = Search | Maps | Review

datatype feedback = Up | Down

record grounding_source =
  uri :: string
  title :: string
  source_type :: source_kind

record transcript_entry =
  speaker :: speaker
  entry_text :: string
  isFinal :: bool
  entry_id :: "int option"
  feedback :: "feedback option"
  sources :: "grounding_source list option"

record personality_settings =
  empathy :: rat
  humor :: rat
  solidarity :: rat

section \<open>Trait levels (src/services/geminiService.ts, getTraitLevel)\<close>

datatype trait_level = Bajo | Medio | Alto

definition getTraitLevel :: "rat \<Rightarrow> trait_level" where
  "getTraitLevel v = (if v \<le> 3 then Bajo else if v \<le> 7 then Medio else Alto)"

section \<open>Feedback on a transcript entry (src/hooks/useLiveSession.ts, handleFeedback)\<close>

text \<open>
  \<^verbatim>\<open>prev.map(entry => entry.id === id ? { ...entry, feedback } : entry)\<close>, the
  updater that \<^verbatim>\<open>handleFeedback\<close> passes to \<^verbatim>\<open>setTranscripts\<close>.
\<close>

definition handleFeedback :: "int option \<Rightarrow> feedback \<Rightarrow> transcript_entry list \<Rightarrow> transcript_entry list" where
  "handleFeedback i fb prev =
     map (\<lambda>entry. if entry_id entry = i then entry\<lparr>feedback := Some fb\<rparr> else entry) prev"

section \<open>Grounding sources (both handlers share this loop)\<close>

text \<open>
  The grounding chunks come from the hosted service. A chunk has an optional
  \<^verbatim>\<open>web\<close> and an optional \<^verbatim>\<open>maps\<close> part; \<open>reviewSnippets\<close> stands for
  \<^verbatim>\<open>chunk.maps.placeAnswerSources?.reviewSnippets\<close> (\<open>None\<close> when either level is
  missing). A snippet's \<^verbatim>\<open>review\<close> is null, a string, or an object; for an object
  the first argument is its \<^verbatim>\<open>uri\<close> (\<open>None\<close> when the object has no such key) and
  the second its \<^verbatim>\<open>text\<close>.
\<close>

datatype review = ReviewNull | ReviewString string | ReviewObject "string option" "string option"

record web_chunk =
  web_uri :: string
  web_title :: "string option"

record maps_chunk =
  maps_uri :: string
  maps_title :: "string option"
  reviewSnippets :: "review list option"

record grounding_chunk =
  web :: "web_chunk option"
  maps :: "maps_chunk option"

text \<open>\<^verbatim>\<open>a || b\<close> on an optional string: an absent or empty \<open>a\<close> is falsy.\<close>

definition orElse :: "string option \<Rightarrow> string \<Rightarrow> string" where
  "orElse a b = (case a of None \<Rightarrow> b | Some s \<Rightarrow> if s = [] then b else s)"

text \<open>
  \<^verbatim>\<open>snippet.review && typeof snippet.review === 'object' && 'uri' in snippet.review\<close>
\<close>

fun reviewWithUri :: "review \<Rightarrow> bool" where
  "reviewWithUri (ReviewObject (Some u) t) = True"
| "reviewWithUri r = False"

text \<open>
  The body of \<^verbatim>\<open>reviewSnippets.forEach\<close>: one push for a qualifying snippet.
  \<open>d\<close> is the default title of a review.
\<close>

fun pushReview :: "string \<Rightarrow> grounding_source list \<Rightarrow> review \<Rightarrow> grounding_source list" where
  "pushReview d acc (ReviewObject (Some u) t) =
     acc @ [\<lparr>uri = u, title = orElse t d, source_type = Review\<rparr>]"
| "pushReview d acc r = acc"

fun pushReviews :: "string \<Rightarrow> review list \<Rightarrow> grounding_source list \<Rightarrow> grounding_source list" where
  "pushReviews d [] acc = acc"
| "pushReviews d (r # rs) acc = pushReviews d rs (pushReview d acc r)"

text \<open>One iteration of \<^verbatim>\<open>for (const chunk of groundingMetadata.groundingChunks)\<close>.\<close>

definition pushChunk :: "string \<Rightarrow> grounding_source list \<Rightarrow> grounding_chunk \<Rightarrow> grounding_source list" where
  "pushChunk d acc chunk =
     (case web chunk of
        Some w \<Rightarrow> acc @ [\<lparr>uri = web_uri w, title = orElse (web_title w) (web_uri w), source_type = Search\<rparr>]
      | None \<Rightarrow>
          (case maps chunk of
             Some m \<Rightarrow>
               (let acc' = acc @ [\<lparr>uri = maps_uri m, title = orElse (maps_title m) (maps_uri m),
                                   source_type = Maps\<rparr>]
                in case reviewSnippets m of None \<Rightarrow> acc' | Some rs \<Rightarrow> pushReviews d rs acc')
           | None \<Rightarrow> acc))"

fun pushChunks :: "string \<Rightarrow> grounding_chunk list \<Rightarrow> grounding_source list \<Rightarrow> grounding_source list" where
  "pushChunks d [] acc = acc"
| "pushChunks d (c # cs) acc = pushChunks d cs (pushChunk d acc c)"

text \<open>
  \<^verbatim>\<open>const sources = []; if (groundingMetadata?.groundingChunks) { for ... }\<close>
\<close>

definition extractSources :: "string \<Rightarrow> grounding_chunk list option \<Rightarrow> grounding_source list" where
  "extractSources d chunks = (case chunks of None \<Rightarrow> [] | Some cs \<Rightarrow> pushChunks d cs [])"

text \<open>
  The default review title. In \<^verbatim>\<open>geminiService.ts\<close> the literal is the UTF-8 text
  "Leer resena" with n-tilde (the bytes 0xc3 0xb1); in \<^verbatim>\<open>useLiveSession.ts\<close> the
  file holds the doubly encoded bytes 0xc3 0x83 0xc2 0xb1 in its place.
\<close>

definition reviewTitleService :: string where
  "reviewTitleService = ''Leer rese'' @ [CHR 0xC3, CHR 0xB1] @ ''a''"

definition reviewTitleHook :: string where
  "reviewTitleHook = ''Leer rese'' @ [CHR 0xC3, CHR 0x83, CHR 0xC2, CHR 0xB1] @ ''a''"

section \<open>Request/response chat (src/services/geminiService.ts)\<close>

text \<open>
  \<^verbatim>\<open>generateSystemInstruction\<close> fills a fixed template with the three trait levels.
  The template text is the parameter \<open>tmpl\<close>.
\<close>

definition generateSystemInstruction ::
  "(trait_level \<Rightarrow> trait_level \<Rightarrow> trait_level \<Rightarrow> string) \<Rightarrow> personality_settings \<Rightarrow> string" where
  "generateSystemInstruction tmpl settings =
     tmpl (getTraitLevel (empathy settings)) (getTraitLevel (humor settings))
          (getTraitLevel (solidarity settings))"

record content =
  role :: string
  parts :: "string list"

record user_location =
  latitude :: rat
  longitude :: rat

record chat_request =
  model :: string
  contents :: "content list"
  systemInstruction :: string
  toolConfig :: "user_location option"

record candidate =
  groundingChunks :: "grounding_chunk list option"

record response =
  response_text :: string
  candidates :: "candidate list option"

record chat_result =
  result_text :: string
  result_sources :: "grounding_source list"

definition mapHistoryToGenAI :: "transcript_entry list \<Rightarrow> content list" where
  "mapHistoryToGenAI history =
     map (\<lambda>entry. \<lparr>role = (if speaker entry = User then ''user'' else ''model''),
                    parts = [entry_text entry]\<rparr>) history"

text \<open>The argument of \<^verbatim>\<open>ai.models.generateContent\<close> in \<^verbatim>\<open>sendChatMessage\<close>.\<close>

definition chatRequest ::
  "(trait_level \<Rightarrow> trait_level \<Rightarrow> trait_level \<Rightarrow> string) \<Rightarrow> string \<Rightarrow> transcript_entry list
     \<Rightarrow> personality_settings \<Rightarrow> user_location option \<Rightarrow> chat_request" where
  "chatRequest tmpl prompt history settings location =
     \<lparr>model = ''gemini-2.5-flash'',
      contents = mapHistoryToGenAI history @ [\<lparr>role = ''user'', parts = [prompt]\<rparr>],
      systemInstruction = generateSystemInstruction tmpl settings,
      toolConfig = location\<rparr>"

text \<open>\<^verbatim>\<open>response.candidates?.[0]?.groundingMetadata?.groundingChunks\<close>\<close>

definition firstCandidateChunks :: "response \<Rightarrow> grounding_chunk list option" where
  "firstCandidateChunks r =
     (case candidates r of None \<Rightarrow> None | Some [] \<Rightarrow> None | Some (c # cs) \<Rightarrow> groundingChunks c)"

text \<open>
  \<^verbatim>\<open>sendChatMessage\<close>. The hosted service is the parameter \<open>api\<close>; a rejected
  promise of \<^verbatim>\<open>generateContent\<close> is \<open>Inl\<close>, and the \<^verbatim>\<open>await\<close> passes it on.
\<close>

definition sendChatMessage ::
  "(chat_request \<Rightarrow> 'e + response) \<Rightarrow> (trait_level \<Rightarrow> trait_level \<Rightarrow> trait_level \<Rightarrow> string)
     \<Rightarrow> string \<Rightarrow> transcript_entry list \<Rightarrow> personality_settings \<Rightarrow> user_location option
     \<Rightarrow> 'e + chat_result" where
  "sendChatMessage api tmpl prompt history settings location =
     (case api (chatRequest tmpl prompt history settings location) of
        Inl err \<Rightarrow> Inl err
      | Inr r \<Rightarrow>
          Inr \<lparr>result_text = response_text r,
               result_sources = extractSources reviewTitleService (firstCandidateChunks r)\<rparr>)"

text \<open>
  The claim's wording of the extraction, chunk by chunk: a search source for a web chunk;
  for a maps chunk a maps source followed by one review source per snippet whose review is
  an object with a uri.
\<close>

definition reviewSource :: "string \<Rightarrow> review \<Rightarrow> grounding_source" where
  "reviewSource d r =
     (case r of
        ReviewObject u t \<Rightarrow> \<lparr>uri = (case u of Some x \<Rightarrow> x | None \<Rightarrow> []), title = orElse t d,
                             source_type = Review\<rparr>
      | _ \<Rightarrow> \<lparr>uri = [], title = d, source_type = Review\<rparr>)"

definition sourcesOfChunk :: "string \<Rightarrow> grounding_chunk \<Rightarrow> grounding_source list" where
  "sourcesOfChunk d chunk =
     (case web chunk of
        Some w \<Rightarrow> [\<lparr>uri = web_uri w, title = orElse (web_title w) (web_uri w), source_type = Search\<rparr>]
      | None \<Rightarrow>
          (case maps chunk of
             None \<Rightarrow> []
           | Some m \<Rightarrow>
               \<lparr>uri = maps_uri m, title = orElse (maps_title m) (maps_uri m), source_type = Maps\<rparr>
               # map (reviewSource d)
                     (filter reviewWithUri (case reviewSnippets m of None \<Rightarrow> [] | Some rs \<Rightarrow> rs))))"

section \<open>PCM encoding (src/hooks/useLiveSession.ts, createPcmBlob)\<close>

text \<open>
  A finite \<^verbatim>\<open>Float32Array\<close> element is a rational, and its product with 32768 is
  exact in double precision. Storing a number into an \<^verbatim>\<open>Int16Array\<close> truncates it
  toward zero and wraps it modulo \<open>2^16\<close> into the signed range.
\<close>

definition truncRat :: "rat \<Rightarrow> int" where
  "truncRat q = (if q < 0 then - \<lfloor>- q\<rfloor> else \<lfloor>q\<rfloor>)"

definition toInt16 :: "rat \<Rightarrow> int" where
  "toInt16 q = (truncRat q + 32768) mod 65536 - 32768"

text \<open>
  \<^verbatim>\<open>for (let i = 0; i < l; i++) int16[i] = Math.max(-32768, Math.min(32767, data[i] * 32768))\<close>
\<close>

function pcmLoop :: "rat list \<Rightarrow> nat \<Rightarrow> int list \<Rightarrow> int list" where
  "pcmLoop data i int16 =
     (if i < length data
      then pcmLoop data (Suc i) (int16[i := toInt16 (max (- 32768) (min 32767 (data ! i * 32768)))])
      else int16)"
  by pat_completeness auto
termination
  by (relation "measure (\<lambda>(data, i, int16). length data - i)") auto

declare pcmLoop.simps [simp del]

text \<open>\<^verbatim>\<open>new Int16Array(l)\<close> is filled with zeros.\<close>

definition pcmSamples :: "rat list \<Rightarrow> int list" where
  "pcmSamples data = pcmLoop data 0 (replicate (length data) 0)"

text \<open>The template literal renders an integral sample rate in decimal.\<close>

function showNat :: "nat \<Rightarrow> string" where
  "showNat n =
     (if n < 10 then [''0123456789'' ! n] else showNat (n div 10) @ [''0123456789'' ! (n mod 10)])"
  by pat_completeness auto
termination
  by (relation "measure id") auto

declare showNat.simps [simp del]

record blob =
  blob_data :: string
  mimeType :: string

text \<open>
  \<open>enc\<close> stands for \<^verbatim>\<open>encode(new Uint8Array(int16.buffer))\<close>, the base64 helper of
  \<^verbatim>\<open>utils/audio\<close> applied to the bytes of the samples.
\<close>

definition createPcmBlob :: "(int list \<Rightarrow> string) \<Rightarrow> rat list \<Rightarrow> nat \<Rightarrow> blob" where
  "createPcmBlob enc data sampleRate =
     \<lparr>blob_data = enc (pcmSamples data), mimeType = ''audio/pcm;rate='' @ showNat sampleRate\<rparr>"

section \<open>The live session hook (src/hooks/useLiveSession.ts)\<close>

subsection \<open>State\<close>

text \<open>
  The two React state variables and the refs of the hook. A ref to a browser or SDK object
  is a \<open>bool\<close> (\<open>False\<close> for \<^verbatim>\<open>null\<close>). \<open>audioSourcesRef\<close> is the JavaScript
  \<^verbatim>\<open>Set\<close> in insertion order; an \<^verbatim>\<open>AudioBufferSourceNode\<close> is identified by its
  creation index, counted in \<open>sourcesCreated\<close>. The calls that the hook makes on browser
  and SDK objects are appended to \<open>effects\<close>. Times are of an arbitrary ordered type
  \<open>'t\<close> with an addition and a zero, so nothing depends on the laws of the arithmetic.

  A handler runs from start to end without another handler interleaving at its
  \<^verbatim>\<open>await\<close>.

  \<^verbatim>\<open>setTranscripts(f)\<close> does not run \<open>f\<close>: it queues the updater, and React runs the
  queue when it renders, after the handler has returned. The updaters of
  \<^verbatim>\<open>handleServerMessage\<close> are closures that read \<^verbatim>\<open>.current\<close> of the refs when
  they run, not when they are queued. \<open>pendingUpdaters\<close> is that queue; an \<open>updater\<close>
  names the closure, and only the one of line 182 has captured a value of its own, the
  local \<^verbatim>\<open>sources\<close>.
\<close>

datatype status = Idle | Connecting | Connected | Error | Disconnected

datatype updater =
    AppendUser
  | ReplaceUser
  | AppendMary
  | ReplaceMary
  | FinalizeUser
  | FinalizeMary "grounding_source list"

datatype 't effect =
    TracksStop
  | ScriptProcessorDisconnect
  | ClearInterval
  | CompressorDisconnect
  | InputContextClose
  | OutputContextClose
  | SourceConnect nat bool
  | SourceStart nat 't 't
  | SourceStop nat
  | SessionClose
  | LiveConnect

record 't hook =
  status :: status
  transcripts :: "transcript_entry list"
  pendingUpdaters :: "updater list"
  sessionPromiseRef :: bool
  inputAudioContextRef :: bool
  outputAudioContextRef :: bool
  mediaStreamRef :: bool
  scriptProcessorRef :: bool
  frameIntervalRef :: bool
  audioSourcesRef :: "nat list"
  nextAudioStartTimeRef :: 't
  compressorRef :: bool
  micGainNodeRef :: bool
  currentInputTranscriptionRef :: string
  currentOutputTranscriptionRef :: string
  currentUserTranscriptIdRef :: "int option"
  currentMaryTranscriptIdRef :: "int option"
  sourcesCreated :: nat
  effects :: "'t effect list"

definition initialHook :: "('t::zero) hook" where
  "initialHook =
     \<lparr>status = Idle, transcripts = [], pendingUpdaters = [], sessionPromiseRef = False, inputAudioContextRef = False,
      outputAudioContextRef = False, mediaStreamRef = False, scriptProcessorRef = False,
      frameIntervalRef = False, audioSourcesRef = [], nextAudioStartTimeRef = 0,
      compressorRef = False, micGainNodeRef = False, currentInputTranscriptionRef = [],
      currentOutputTranscriptionRef = [], currentUserTranscriptIdRef = None,
      currentMaryTranscriptIdRef = None, sourcesCreated = 0, effects = []\<rparr>"

subsection \<open>cleanup\<close>

definition cleanup :: "('t::zero) hook \<Rightarrow> 't hook" where
  "cleanup s =
     s\<lparr>mediaStreamRef := False, scriptProcessorRef := False, frameIntervalRef := False,
       compressorRef := False, inputAudioContextRef := False, outputAudioContextRef := False,
       audioSourcesRef := [], nextAudioStartTimeRef := 0, sessionPromiseRef := False,
       effects := effects s
         @ (if mediaStreamRef s then [TracksStop] else [])
         @ (if scriptProcessorRef s then [ScriptProcessorDisconnect] else [])
         @ (if frameIntervalRef s then [ClearInterval] else [])
         @ (if compressorRef s then [CompressorDisconnect] else [])
         @ (if inputAudioContextRef s then [InputContextClose] else [])
         @ (if outputAudioContextRef s then [OutputContextClose] else [])
         @ map SourceStop (audioSourcesRef s)
         @ (if sessionPromiseRef s then [SessionClose] else [])\<rparr>"

subsection \<open>handleServerMessage\<close>

text \<open>
  The fields of a \<^verbatim>\<open>LiveServerMessage\<close> that the handler reads:
  \<open>audioData\<close> is \<^verbatim>\<open>serverContent?.modelTurn?.parts?.[0]?.inlineData?.data\<close>,
  \<open>inputTranscription\<close> and \<open>outputTranscription\<close> hold the \<^verbatim>\<open>text\<close> of the
  transcription object when the message has one, \<open>msg_groundingChunks\<close> is
  \<^verbatim>\<open>serverContent.groundingMetadata?.groundingChunks\<close>.

  What the handler reads from its environment while it runs: the output context's
  \<^verbatim>\<open>currentTime\<close> and the two readings of \<^verbatim>\<open>Date.now()\<close> (lines 127 and 142).
  The duration of the decoded buffer (\<^verbatim>\<open>decodeAudioData\<close> of \<^verbatim>\<open>utils/audio\<close>) is
  the parameter \<open>dur\<close>.
\<close>

record message =
  audioData :: "string option"
  interrupted :: bool
  inputTranscription :: "string option"
  outputTranscription :: "string option"
  turnComplete :: bool
  msg_groundingChunks :: "grounding_chunk list option"

record 't env =
  currentTime :: 't
  nowInput :: int
  nowOutput :: int

text \<open>Truthiness of a \<^verbatim>\<open>number | null\<close>: null and 0 are falsy.\<close>

definition truthyId :: "int option \<Rightarrow> bool" where
  "truthyId r = (case r of None \<Rightarrow> False | Some n \<Rightarrow> n \<noteq> 0)"

text \<open>Lines 93 to 113: schedule the audio chunk.\<close>

definition playAudio :: "(string \<Rightarrow> 't) \<Rightarrow> 't env \<Rightarrow> message \<Rightarrow> ('t::{linorder,plus}) hook \<Rightarrow> 't hook" where
  "playAudio dur e m s =
     (case audioData m of
        None \<Rightarrow> s
      | Some base64Audio \<Rightarrow>
          if base64Audio \<noteq> [] \<and> outputAudioContextRef s then
            (let start = max (nextAudioStartTimeRef s) (currentTime e);
                 duration = dur base64Audio;
                 source = sourcesCreated s
             in s\<lparr>nextAudioStartTimeRef := start + duration,
                  audioSourcesRef := audioSourcesRef s @ [source],
                  sourcesCreated := Suc source,
                  effects := effects s @ [SourceConnect source (compressorRef s),
                                          SourceStart source start duration]\<rparr>)
          else s)"

text \<open>Lines 115 to 121: interruption.\<close>

definition stopOnInterrupted :: "message \<Rightarrow> ('t::zero) hook \<Rightarrow> 't hook" where
  "stopOnInterrupted m s =
     (if interrupted m then
        s\<lparr>audioSourcesRef := [], nextAudioStartTimeRef := 0,
          effects := effects s @ map SourceStop (audioSourcesRef s)\<rparr>
      else s)"

text \<open>
  The bodies of the updaters passed to \<^verbatim>\<open>setTranscripts\<close> (lines 128, 132, 143, 147,
  178, 182), as functions of the values they read from the refs.
\<close>

definition appendEntry ::
  "speaker \<Rightarrow> int option \<Rightarrow> string \<Rightarrow> transcript_entry list \<Rightarrow> transcript_entry list" where
  "appendEntry sp ref txt prev =
     prev @ [\<lparr>speaker = sp, entry_text = txt, isFinal = False, entry_id = ref,
               feedback = None, sources = None\<rparr>]"

definition replaceText :: "int option \<Rightarrow> string \<Rightarrow> transcript_entry list \<Rightarrow> transcript_entry list" where
  "replaceText ref txt prev =
     map (\<lambda>t. if entry_id t = ref then t\<lparr>entry_text := txt\<rparr> else t) prev"

definition finalizeUser :: "int option \<Rightarrow> string \<Rightarrow> transcript_entry list \<Rightarrow> transcript_entry list" where
  "finalizeUser ref txt prev =
     map (\<lambda>t. if entry_id t = ref then t\<lparr>entry_text := txt, isFinal := True\<rparr> else t) prev"

definition finalizeMary ::
  "int option \<Rightarrow> string \<Rightarrow> grounding_source list \<Rightarrow> transcript_entry list \<Rightarrow> transcript_entry list" where
  "finalizeMary ref txt srcs prev =
     map (\<lambda>t. if entry_id t = ref
               then t\<lparr>entry_text := txt, isFinal := True,
                      sources := (if length srcs > 0 then Some srcs else None)\<rparr>
               else t) prev"

text \<open>An updater run in state \<open>s\<close>: it reads the refs as they are in \<open>s\<close>.\<close>

fun applyUpdater :: "'t hook \<Rightarrow> transcript_entry list \<Rightarrow> updater \<Rightarrow> transcript_entry list" where
  "applyUpdater s prev AppendUser =
     appendEntry User (currentUserTranscriptIdRef s) (currentInputTranscriptionRef s) prev"
| "applyUpdater s prev ReplaceUser =
     replaceText (currentUserTranscriptIdRef s) (currentInputTranscriptionRef s) prev"
| "applyUpdater s prev AppendMary =
     appendEntry Mary (currentMaryTranscriptIdRef s) (currentOutputTranscriptionRef s) prev"
| "applyUpdater s prev ReplaceMary =
     replaceText (currentMaryTranscriptIdRef s) (currentOutputTranscriptionRef s) prev"
| "applyUpdater s prev FinalizeUser =
     finalizeUser (currentUserTranscriptIdRef s) (currentInputTranscriptionRef s) prev"
| "applyUpdater s prev (FinalizeMary srcs) =
     finalizeMary (currentMaryTranscriptIdRef s) (currentOutputTranscriptionRef s) srcs prev"

text \<open>React renders: the queued updaters run in order, each on the result of the one before.\<close>

definition runUpdaters :: "'t hook \<Rightarrow> 't hook" where
  "runUpdaters s =
     s\<lparr>transcripts := foldl (applyUpdater s) (transcripts s) (pendingUpdaters s),
       pendingUpdaters := []\<rparr>"

text \<open>Lines 123 to 136: an input transcription delta.\<close>

definition inputDelta :: "'t env \<Rightarrow> message \<Rightarrow> 't hook \<Rightarrow> 't hook" where
  "inputDelta e m s =
     (case inputTranscription m of
        None \<Rightarrow> s
      | Some txt \<Rightarrow>
          (let acc = currentInputTranscriptionRef s @ txt in
           if \<not> truthyId (currentUserTranscriptIdRef s) then
             s\<lparr>currentInputTranscriptionRef := acc,
               currentUserTranscriptIdRef := Some (nowInput e),
               pendingUpdaters := pendingUpdaters s @ [AppendUser]\<rparr>
           else
             s\<lparr>currentInputTranscriptionRef := acc,
               pendingUpdaters := pendingUpdaters s @ [ReplaceUser]\<rparr>))"

text \<open>Lines 138 to 151: an output transcription delta.\<close>

definition outputDelta :: "'t env \<Rightarrow> message \<Rightarrow> 't hook \<Rightarrow> 't hook" where
  "outputDelta e m s =
     (case outputTranscription m of
        None \<Rightarrow> s
      | Some txt \<Rightarrow>
          (let acc = currentOutputTranscriptionRef s @ txt in
           if \<not> truthyId (currentMaryTranscriptIdRef s) then
             s\<lparr>currentOutputTranscriptionRef := acc,
               currentMaryTranscriptIdRef := Some (nowOutput e),
               pendingUpdaters := pendingUpdaters s @ [AppendMary]\<rparr>
           else
             s\<lparr>currentOutputTranscriptionRef := acc,
               pendingUpdaters := pendingUpdaters s @ [ReplaceMary]\<rparr>))"

text \<open>
  Lines 153 to 189: turn completion. The two updaters are queued while the id references
  are still set, and then lines 185 to 188 reset the accumulators and the references.
\<close>

definition completeTurn :: "message \<Rightarrow> 't hook \<Rightarrow> 't hook" where
  "completeTurn m s =
     (if turnComplete m then
        (let srcs = extractSources reviewTitleHook (msg_groundingChunks m);
             q1 = (if truthyId (currentUserTranscriptIdRef s) then [FinalizeUser] else []);
             q2 = (if truthyId (currentMaryTranscriptIdRef s) then [FinalizeMary srcs] else [])
         in s\<lparr>pendingUpdaters := pendingUpdaters s @ q1 @ q2,
              currentInputTranscriptionRef := [], currentOutputTranscriptionRef := [],
              currentUserTranscriptIdRef := None, currentMaryTranscriptIdRef := None\<rparr>)
      else s)"

text \<open>
  The handler, and then the render that runs what it has queued, before the next message
  is handled.
\<close>

definition handleServerMessage ::
  "(string \<Rightarrow> 't) \<Rightarrow> 't env \<Rightarrow> message \<Rightarrow> ('t::{linorder,plus,zero}) hook \<Rightarrow> 't hook" where
  "handleServerMessage dur e m s =
     runUpdaters
       (completeTurn m (outputDelta e m (inputDelta e m (stopOnInterrupted m (playAudio dur e m s)))))"

subsection \<open>connect and the session callbacks\<close>

text \<open>
  Where the body of \<^verbatim>\<open>connect\<close> leaves its \<^verbatim>\<open>try\<close> block: at the rejected
  \<^verbatim>\<open>getUserMedia\<close>, at the rejected \<^verbatim>\<open>videoEl.play()\<close>, at the explicit
  \<^verbatim>\<open>throw\<close> for a missing API key, or at its end, after \<^verbatim>\<open>ai.live.connect\<close>
  has returned the session promise.
\<close>

datatype connect_outcome = GetUserMediaRejected | VideoPlayRejected | ApiKeyMissing | LiveConnectReturned

definition connect :: "connect_outcome \<Rightarrow> ('t::zero) hook \<Rightarrow> 't hook" where
  "connect outcome s =
     (if status s \<noteq> Idle \<or> sessionPromiseRef s then s
      else
        (let s1 = s\<lparr>status := Connecting\<rparr> in
         case outcome of
           GetUserMediaRejected \<Rightarrow> cleanup (s1\<lparr>status := Error\<rparr>)
         | VideoPlayRejected \<Rightarrow> cleanup (s1\<lparr>mediaStreamRef := True, status := Error\<rparr>)
         | ApiKeyMissing \<Rightarrow>
             cleanup (s1\<lparr>mediaStreamRef := True, inputAudioContextRef := True,
                         outputAudioContextRef := True, compressorRef := True, status := Error\<rparr>)
         | LiveConnectReturned \<Rightarrow>
             s1\<lparr>mediaStreamRef := True, inputAudioContextRef := True,
                outputAudioContextRef := True, compressorRef := True, sessionPromiseRef := True,
                effects := effects s @ [LiveConnect]\<rparr>))"

text \<open>
  \<^verbatim>\<open>onopen\<close>: after \<^verbatim>\<open>setStatus('connected')\<close> the callback dereferences the input
  context; when \<^verbatim>\<open>cleanup\<close> has reset it the callback stops there with a TypeError.
  \<open>canvas2d\<close> says whether \<^verbatim>\<open>canvasEl.getContext('2d')\<close> gave a context.
\<close>

definition onopen :: "bool \<Rightarrow> 't hook \<Rightarrow> 't hook" where
  "onopen canvas2d s =
     (if inputAudioContextRef s then
        s\<lparr>status := Connected, micGainNodeRef := True, scriptProcessorRef := True,
          frameIntervalRef := (canvas2d \<or> frameIntervalRef s)\<rparr>
      else s\<lparr>status := Connected\<rparr>)"

definition onerror :: "('t::zero) hook \<Rightarrow> 't hook" where
  "onerror s = cleanup (s\<lparr>status := Error\<rparr>)"

definition onclose :: "('t::zero) hook \<Rightarrow> 't hook" where
  "onclose s = cleanup (s\<lparr>status := Disconnected\<rparr>)"

text \<open>The \<^verbatim>\<open>'ended'\<close> listener of a source: \<^verbatim>\<open>audioSourcesRef.current.delete(source)\<close>.\<close>

definition sourceEnded :: "nat \<Rightarrow> 't hook \<Rightarrow> 't hook" where
  "sourceEnded source s = s\<lparr>audioSourcesRef := filter (\<lambda>x. x \<noteq> source) (audioSourcesRef s)\<rparr>"

text \<open>Everything that can happen to a mounted hook, and a run of such events.\<close>

datatype 't event =
    Connect connect_outcome
  | OnOpen bool
  | OnMessage "'t env" message
  | OnError
  | OnClose
  | SourceEnded nat
  | Feedback "int option" feedback
  | Unmount

fun step :: "(string \<Rightarrow> 't) \<Rightarrow> ('t::{linorder,plus,zero}) hook \<Rightarrow> 't event \<Rightarrow> 't hook" where
  "step dur s (Connect outcome) = connect outcome s"
| "step dur s (OnOpen canvas2d) = onopen canvas2d s"
| "step dur s (OnMessage e m) = handleServerMessage dur e m s"
| "step dur s OnError = onerror s"
| "step dur s OnClose = onclose s"
| "step dur s (SourceEnded source) = sourceEnded source s"
| "step dur s (Feedback i fb) = s\<lparr>transcripts := handleFeedback i fb (transcripts s)\<rparr>"
| "step dur s Unmount = cleanup s"

definition run :: "(string \<Rightarrow> 't) \<Rightarrow> ('t::{linorder,plus,zero}) hook \<Rightarrow> 't event list \<Rightarrow> 't hook" where
  "run dur s evs = foldl (step dur) s evs"

subsection \<open>Observing the schedule\<close>

text \<open>
  A message is an audio chunk when its audio data is a non-empty string. The schedule of a
  state is the list of the start times and durations of its \<^verbatim>\<open>source.start\<close> calls, in
  the order of the calls. A schedule is gap-free when each entry starts where the one before
  it ends. \<open>handleMessages\<close> handles a list of messages one after the other, each with the
  environment it meets; \<open>staysAhead\<close> says that at each audio chunk of such a list the
  accumulated time is at or above the context's current time; \<open>chained\<close> is the invariant of
  the accumulator from the \<open>n\<close>-th scheduled chunk on.
\<close>

definition carriesAudio :: "message \<Rightarrow> bool" where
  "carriesAudio m = (case audioData m of None \<Rightarrow> False | Some d \<Rightarrow> d \<noteq> [])"

fun startOf :: "'t effect \<Rightarrow> ('t \<times> 't) list" where
  "startOf (SourceStart source start duration) = [(start, duration)]"
| "startOf x = []"

definition scheduled :: "'t hook \<Rightarrow> ('t \<times> 't) list" where
  "scheduled s = concat (map startOf (effects s))"

fun gapFree :: "('t::plus \<times> 't) list \<Rightarrow> bool" where
  "gapFree (a # b # rest) = (fst b = fst a + snd a \<and> gapFree (b # rest))"
| "gapFree xs = True"

fun handleMessages ::
  "(string \<Rightarrow> 't) \<Rightarrow> ('t::{linorder,plus,zero}) hook \<Rightarrow> ('t env \<times> message) list \<Rightarrow> 't hook" where
  "handleMessages dur s [] = s"
| "handleMessages dur s ((e, m) # rest) = handleMessages dur (handleServerMessage dur e m s) rest"

fun staysAhead ::
  "(string \<Rightarrow> 't) \<Rightarrow> ('t::{linorder,plus,zero}) hook \<Rightarrow> ('t env \<times> message) list \<Rightarrow> bool" where
  "staysAhead dur s [] = True"
| "staysAhead dur s ((e, m) # rest) =
     ((\<not> carriesAudio m \<or> currentTime e \<le> nextAudioStartTimeRef s)
      \<and> staysAhead dur (handleServerMessage dur e m s) rest)"

definition chained :: "nat \<Rightarrow> ('t::{linorder,plus,zero}) hook \<Rightarrow> bool" where
  "chained n s \<longleftrightarrow>
     outputAudioContextRef s \<and> n < length (scheduled s) \<and> gapFree (drop n (scheduled s))
     \<and> nextAudioStartTimeRef s = fst (last (scheduled s)) + snd (last (scheduled s))"

subsection \<open>Observing the session\<close>

text \<open>
  \<open>released\<close> is the state that \<^verbatim>\<open>cleanup\<close> leaves behind: every resource ref reset,
  no queued source, the accumulated time at 0, no session reference. \<open>sessionsOpened\<close>
  counts the calls of \<^verbatim>\<open>ai.live.connect\<close> so far.
\<close>

definition released :: "'t::zero hook \<Rightarrow> bool" where
  "released s \<longleftrightarrow>
     \<not> mediaStreamRef s \<and> \<not> scriptProcessorRef s \<and> \<not> frameIntervalRef s \<and> \<not> compressorRef s
     \<and> \<not> inputAudioContextRef s \<and> \<not> outputAudioContextRef s \<and> audioSourcesRef s = []
     \<and> nextAudioStartTimeRef s = 0 \<and> \<not> sessionPromiseRef s"

definition sessionsOpened :: "'t hook \<Rightarrow> nat" where
  "sessionsOpened s = length (filter (\<lambda>x. x = LiveConnect) (effects s))"

subsection \<open>Observing a turn\<close>

text \<open>
  The entry that a first delta appends, the text that the deltas of a list of messages add
  up to, the entries of a list that carry a given id, and the numbers that occur as ids in
  a list. \<open>turnInv\<close> is the invariant of a turn in progress whose time stamps are taken
  from \<open>US\<close> for the user entry and from \<open>MS\<close> for the mary entry: no updater is
  pending, the entries of before the turn are a prefix of the list, and each current id has
  exactly one entry, which holds the accumulated text.
\<close>

definition userEntry :: "int \<Rightarrow> string \<Rightarrow> transcript_entry" where
  "userEntry i txt = \<lparr>speaker = User, entry_text = txt, isFinal = False, entry_id = Some i,
                       feedback = None, sources = None\<rparr>"

definition maryEntry :: "int \<Rightarrow> string \<Rightarrow> transcript_entry" where
  "maryEntry i txt = \<lparr>speaker = Mary, entry_text = txt, isFinal = False, entry_id = Some i,
                       feedback = None, sources = None\<rparr>"

definition inputText :: "('t env \<times> message) list \<Rightarrow> string" where
  "inputText ms = concat (map (\<lambda>(e, m). case inputTranscription m of None \<Rightarrow> [] | Some txt \<Rightarrow> txt) ms)"

definition outputText :: "('t env \<times> message) list \<Rightarrow> string" where
  "outputText ms = concat (map (\<lambda>(e, m). case outputTranscription m of None \<Rightarrow> [] | Some txt \<Rightarrow> txt) ms)"

definition withId :: "int \<Rightarrow> transcript_entry list \<Rightarrow> transcript_entry list" where
  "withId i ts = filter (\<lambda>t. entry_id t = Some i) ts"

definition idsOf :: "transcript_entry list \<Rightarrow> int set" where
  "idsOf ts = {i. Some i \<in> entry_id ` set ts}"

definition turnInv :: "int set \<Rightarrow> int set \<Rightarrow> transcript_entry list \<Rightarrow> 't hook \<Rightarrow> bool" where
  "turnInv US MS old s \<longleftrightarrow>
     pendingUpdaters s = []
     \<and> (\<exists>rest. transcripts s = old @ rest)
     \<and> idsOf (transcripts s)
         \<subseteq> idsOf old \<union> set_option (currentUserTranscriptIdRef s)
             \<union> set_option (currentMaryTranscriptIdRef s)
     \<and> (case currentUserTranscriptIdRef s of
           None \<Rightarrow> currentInputTranscriptionRef s = []
         | Some u \<Rightarrow> u \<in> US \<and> withId u (transcripts s) = [userEntry u (currentInputTranscriptionRef s)])
     \<and> (case currentMaryTranscriptIdRef s of
           None \<Rightarrow> currentOutputTranscriptionRef s = []
         | Some v \<Rightarrow> v \<in> MS \<and> withId v (transcripts s) = [maryEntry v (currentOutputTranscriptionRef s)])"

section \<open>Example inputs\<close>

definition ex_history :: "transcript_entry list" where
  "ex_history =
     [\<lparr>speaker = User, entry_text = ''hola'', isFinal = True, entry_id = Some 1,
       feedback = None, sources = None\<rparr>,
      \<lparr>speaker = Mary, entry_text = ''buenas'', isFinal = True, entry_id = Some 2,
       feedback = None, sources = None\<rparr>]"

definition ex_settings :: personality_settings where
  "ex_settings = \<lparr>empathy = 8, humor = 7, solidarity = 9\<rparr>"

definition ex_chunks :: "grounding_chunk list" where
  "ex_chunks =
     [\<lparr>web = Some \<lparr>web_uri = ''w'', web_title = None\<rparr>, maps = None\<rparr>,
      \<lparr>web = None,
       maps = Some \<lparr>maps_uri = ''m'', maps_title = Some ''Cafe'',
                    reviewSnippets = Some [ReviewNull, ReviewObject (Some ''r'') (Some ''rico''),
                                           ReviewString ''s'', ReviewObject None None]\<rparr>\<rparr>]"

definition ex_response :: response where
  "ex_response =
     \<lparr>response_text = ''claro'', candidates = Some [\<lparr>groundingChunks = Some ex_chunks\<rparr>]\<rparr>"

definition emptyMsg :: message where
  "emptyMsg = \<lparr>audioData = None, interrupted = False, inputTranscription = None,
               outputTranscription = None, turnComplete = False, msg_groundingChunks = None\<rparr>"

definition envAt :: "'t \<Rightarrow> int \<Rightarrow> 't env" where
  "envAt t n = \<lparr>currentTime = t, nowInput = n, nowOutput = n\<rparr>"

definition ex_playing :: "int hook" where
  "ex_playing = initialHook\<lparr>status := Connected, outputAudioContextRef := True\<rparr>"

definition ex_queued :: "int hook" where
  "ex_queued =
     handleServerMessage (\<lambda>d. int (length d)) (envAt 5 1000) (emptyMsg\<lparr>audioData := Some ''ab''\<rparr>)
       ex_playing"

definition ex_connected :: "int hook" where
  "ex_connected = connect LiveConnectReturned initialHook"

text \<open>
  The first input delta and the first output delta of a turn, handled while
  \<^verbatim>\<open>Date.now()\<close> reads the same millisecond.
\<close>

definition ex_sameMillisecond :: "int hook" where
  "ex_sameMillisecond =
     handleMessages (\<lambda>d. 0) initialHook
       [(envAt 0 1000, emptyMsg\<lparr>inputTranscription := Some ''hola''\<rparr>),
        (envAt 0 1000, emptyMsg\<lparr>outputTranscription := Some ''hi''\<rparr>)]"

text \<open>
  A turn in progress with two distinct ids, and the message that completes it and carries
  grounding chunks.
\<close>

definition ex_turn :: "int hook" where
  "ex_turn =
     handleMessages (\<lambda>d. 0) initialHook
       [(envAt 0 1000, emptyMsg\<lparr>inputTranscription := Some ''hola''\<rparr>),
        (envAt 0 1001, emptyMsg\<lparr>outputTranscription := Some ''hi''\<rparr>)]"

definition ex_complete :: message where
  "ex_complete = emptyMsg\<lparr>turnComplete := True, msg_groundingChunks := Some ex_chunks\<rparr>"

section \<open>Theorems\<close>

subsection \<open>Auxiliary lemmas\<close>

lemma pushReviews_sources:
  "pushReviews d rs acc = acc @ map (reviewSource d) (filter reviewWithUri rs)"
proof (induction rs arbitrary: acc)
  case Nil
  show ?case by simp
next
  case (Cons r rs)
  show ?case
  proof (cases "reviewWithUri r")
    case True
    then obtain u t where "r = ReviewObject (Some u) t"
      by (cases r rule: reviewWithUri.cases) auto
    then show ?thesis using Cons.IH by (simp add: reviewSource_def)
  next
    case False
    then have "pushReview d acc r = acc"
      by (cases r rule: reviewWithUri.cases) auto
    with False show ?thesis using Cons.IH by simp
  qed
qed

lemma pushChunk_sources: "pushChunk d acc c = acc @ sourcesOfChunk d c"
  by (simp add: pushChunk_def sourcesOfChunk_def pushReviews_sources Let_def split: option.splits)

lemma pushChunks_sources:
  "pushChunks d cs acc = acc @ concat (map (sourcesOfChunk d) cs)"
  by (induction cs arbitrary: acc) (simp_all add: pushChunk_sources)

lemma extractSources_sources:
  "extractSources d chunks = concat (map (sourcesOfChunk d) (case chunks of None \<Rightarrow> [] | Some cs \<Rightarrow> cs))"
  by (simp add: extractSources_def pushChunks_sources split: option.splits)

lemma truncRat_clamped:
  assumes "- 32768 \<le> q" "q \<le> 32767"
  shows "- 32768 \<le> truncRat q \<and> truncRat q \<le> 32767"
proof (cases "q < 0")
  case True
  have eq: "truncRat q = - \<lfloor>- q\<rfloor>" using True by (simp add: truncRat_def)
  have "- q \<le> 32768" using assms(1) by simp
  then have a: "\<lfloor>- q\<rfloor> \<le> 32768" by (simp add: floor_le_iff)
  have b: "0 \<le> \<lfloor>- q\<rfloor>" using True by simp
  show ?thesis using eq a b by linarith
next
  case False
  have eq: "truncRat q = \<lfloor>q\<rfloor>" using False by (simp add: truncRat_def)
  have a: "\<lfloor>q\<rfloor> \<le> 32767" using assms(2) by (simp add: floor_le_iff)
  have b: "0 \<le> \<lfloor>q\<rfloor>" using False by simp
  show ?thesis using eq a b by linarith
qed

lemma toInt16_clamped:
  "toInt16 (max (- 32768) (min 32767 q)) = truncRat (max (- 32768) (min 32767 q))"
proof -
  let ?c = "max (- 32768) (min 32767 q)"
  have "- 32768 \<le> truncRat ?c \<and> truncRat ?c \<le> 32767"
    by (rule truncRat_clamped) auto
  then show ?thesis by (simp add: toInt16_def)
qed

lemma pcmLoop_length: "length (pcmLoop data i int16) = length int16"
  by (induction data i int16 rule: pcmLoop.induct) (subst pcmLoop.simps, simp)

lemma pcmLoop_nth:
  "length int16 = length data \<Longrightarrow> k < length data \<Longrightarrow>
   pcmLoop data i int16 ! k =
     (if i \<le> k then toInt16 (max (- 32768) (min 32767 (data ! k * 32768))) else int16 ! k)"
proof (induction data i int16 rule: pcmLoop.induct)
  case (1 data i int16)
  show ?case
  proof (cases "i < length data")
    case True
    show ?thesis
    proof (cases "k = i")
      case True
      with "1.IH"[OF \<open>i < length data\<close>] "1.prems" show ?thesis
        by (subst pcmLoop.simps) simp
    next
      case False
      with "1.IH"[OF \<open>i < length data\<close>] "1.prems" \<open>i < length data\<close> show ?thesis
        by (subst pcmLoop.simps) (auto simp: nth_list_update)
    qed
  next
    case False
    then show ?thesis using "1.prems" by (subst pcmLoop.simps) simp
  qed
qed

lemma showNat_digit: "n < 10 \<Longrightarrow> showNat n = [''0123456789'' ! n]"
  by (subst showNat.simps) simp

lemma showNat_more: "10 \<le> n \<Longrightarrow> showNat n = showNat (n div 10) @ [''0123456789'' ! (n mod 10)]"
  by (subst showNat.simps) simp

lemma gapFree_snoc:
  "gapFree (xs @ [x]) \<longleftrightarrow> gapFree xs \<and> (xs = [] \<or> fst x = fst (last xs) + snd (last xs))"
  by (induction xs rule: gapFree.induct) auto

lemma inputDelta_audio [simp]:
  "effects (inputDelta e m s) = effects s"
  "nextAudioStartTimeRef (inputDelta e m s) = nextAudioStartTimeRef s"
  "audioSourcesRef (inputDelta e m s) = audioSourcesRef s"
  "outputAudioContextRef (inputDelta e m s) = outputAudioContextRef s"
  by (simp_all add: inputDelta_def Let_def split: option.splits)

lemma outputDelta_audio [simp]:
  "effects (outputDelta e m s) = effects s"
  "nextAudioStartTimeRef (outputDelta e m s) = nextAudioStartTimeRef s"
  "audioSourcesRef (outputDelta e m s) = audioSourcesRef s"
  "outputAudioContextRef (outputDelta e m s) = outputAudioContextRef s"
  by (simp_all add: outputDelta_def Let_def split: option.splits)

lemma completeTurn_audio [simp]:
  "effects (completeTurn m s) = effects s"
  "nextAudioStartTimeRef (completeTurn m s) = nextAudioStartTimeRef s"
  "audioSourcesRef (completeTurn m s) = audioSourcesRef s"
  "outputAudioContextRef (completeTurn m s) = outputAudioContextRef s"
  by (simp_all add: completeTurn_def Let_def)

lemma runUpdaters_audio [simp]:
  "effects (runUpdaters s) = effects s"
  "nextAudioStartTimeRef (runUpdaters s) = nextAudioStartTimeRef s"
  "audioSourcesRef (runUpdaters s) = audioSourcesRef s"
  "outputAudioContextRef (runUpdaters s) = outputAudioContextRef s"
  by (simp_all add: runUpdaters_def)

lemma scheduled_stops [simp]: "concat (map startOf (map SourceStop xs)) = []"
  by (induction xs) simp_all

lemma handleServerMessage_context [simp]:
  "outputAudioContextRef (handleServerMessage dur e m s) = outputAudioContextRef s"
  by (simp add: handleServerMessage_def stopOnInterrupted_def playAudio_def Let_def
        split: option.splits)

lemma handleServerMessage_quiet:
  "\<not> carriesAudio m \<Longrightarrow> scheduled (handleServerMessage dur e m s) = scheduled s"
  "\<not> carriesAudio m \<Longrightarrow> \<not> interrupted m \<Longrightarrow>
     nextAudioStartTimeRef (handleServerMessage dur e m s) = nextAudioStartTimeRef s"
  by (simp_all add: handleServerMessage_def stopOnInterrupted_def playAudio_def carriesAudio_def
        scheduled_def split: option.splits)

lemma handleServerMessage_chunk:
  assumes "audioData m = Some d" "d \<noteq> []" "outputAudioContextRef s"
  shows "scheduled (handleServerMessage dur e m s)
           = scheduled s @ [(max (nextAudioStartTimeRef s) (currentTime e), dur d)]"
    and "\<not> interrupted m \<Longrightarrow>
           nextAudioStartTimeRef (handleServerMessage dur e m s)
             = max (nextAudioStartTimeRef s) (currentTime e) + dur d"
  using assms
  by (simp_all add: handleServerMessage_def stopOnInterrupted_def playAudio_def scheduled_def Let_def)

lemma chained_step:
  assumes "chained n s" "\<not> interrupted m"
    and "\<not> carriesAudio m \<or> currentTime e \<le> nextAudioStartTimeRef s"
  shows "chained n (handleServerMessage dur e m s)"
    and "take (length (scheduled s)) (scheduled (handleServerMessage dur e m s)) = scheduled s"
    and "length (scheduled (handleServerMessage dur e m s))
           = length (scheduled s) + (if carriesAudio m then 1 else 0)"
proof -
  show "chained n (handleServerMessage dur e m s)"
  proof (cases "carriesAudio m")
    case False
    then show ?thesis using assms by (simp add: chained_def handleServerMessage_quiet)
  next
    case True
    then obtain d where d: "audioData m = Some d" "d \<noteq> []"
      by (auto simp: carriesAudio_def split: option.splits)
    have ctx: "outputAudioContextRef s" using assms(1) by (simp add: chained_def)
    have mx: "max (nextAudioStartTimeRef s) (currentTime e) = nextAudioStartTimeRef s"
      using assms(3) True by (simp add: max_def)
    show ?thesis
      using assms(1,2) handleServerMessage_chunk[OF d ctx, of dur e] mx
      by (auto simp: chained_def gapFree_snoc)
  qed
  show "take (length (scheduled s)) (scheduled (handleServerMessage dur e m s)) = scheduled s"
    using assms(1)
    by (cases "carriesAudio m")
       (auto simp: handleServerMessage_quiet handleServerMessage_chunk chained_def carriesAudio_def
             split: option.splits)
  show "length (scheduled (handleServerMessage dur e m s))
           = length (scheduled s) + (if carriesAudio m then 1 else 0)"
    using assms(1)
    by (cases "carriesAudio m")
       (auto simp: handleServerMessage_quiet handleServerMessage_chunk chained_def carriesAudio_def
             split: option.splits)
qed

lemma chained_run:
  "chained n s \<Longrightarrow> list_all (\<lambda>(e, m). \<not> interrupted m) ems \<Longrightarrow> staysAhead dur s ems \<Longrightarrow>
   chained n (handleMessages dur s ems)
   \<and> take (length (scheduled s)) (scheduled (handleMessages dur s ems)) = scheduled s
   \<and> length (scheduled (handleMessages dur s ems))
       = length (scheduled s) + length (filter (\<lambda>(e, m). carriesAudio m) ems)"
proof (induction ems arbitrary: s)
  case Nil
  then show ?case by simp
next
  case (Cons em ems)
  obtain e m where em: "em = (e, m)" by (cases em)
  let ?s1 = "handleServerMessage dur e m s"
  have ni: "\<not> interrupted m" and rest: "list_all (\<lambda>(e, m). \<not> interrupted m) ems"
    using Cons.prems(2) em by simp_all
  have ah: "\<not> carriesAudio m \<or> currentTime e \<le> nextAudioStartTimeRef s"
    and ah': "staysAhead dur ?s1 ems"
    using Cons.prems(3) em by simp_all
  note st = chained_step[OF Cons.prems(1) ni ah, of dur]
  note ih = Cons.IH[OF st(1) rest ah']
  have "take (length (scheduled s)) (scheduled (handleMessages dur ?s1 ems)) = scheduled s"
  proof -
    have "length (scheduled s) \<le> length (scheduled ?s1)" using st(3) by simp
    then have "take (length (scheduled s)) (scheduled (handleMessages dur ?s1 ems))
        = take (length (scheduled s)) (take (length (scheduled ?s1)) (scheduled (handleMessages dur ?s1 ems)))"
      by (simp add: min_def)
    also have "\<dots> = take (length (scheduled s)) (scheduled ?s1)" using ih by simp
    also have "\<dots> = scheduled s" using st(2) .
    finally show ?thesis .
  qed
  then show ?case using ih st(3) em by simp
qed

lemma gapFree_nth:
  "gapFree xs \<longleftrightarrow> (\<forall>k. Suc k < length xs \<longrightarrow> fst (xs ! Suc k) = fst (xs ! k) + snd (xs ! k))"
proof (induction xs rule: gapFree.induct)
  case (1 a b rest)
  show ?case
  proof
    assume g: "gapFree (a # b # rest)"
    show "\<forall>k. Suc k < length (a # b # rest) \<longrightarrow>
            fst ((a # b # rest) ! Suc k) = fst ((a # b # rest) ! k) + snd ((a # b # rest) ! k)"
    proof (intro allI impI)
      fix k assume k: "Suc k < length (a # b # rest)"
      show "fst ((a # b # rest) ! Suc k) = fst ((a # b # rest) ! k) + snd ((a # b # rest) ! k)"
      proof (cases k)
        case 0
        then show ?thesis using g by simp
      next
        case (Suc j)
        then show ?thesis using g k 1 by simp
      qed
    qed
  next
    assume h: "\<forall>k. Suc k < length (a # b # rest) \<longrightarrow>
            fst ((a # b # rest) ! Suc k) = fst ((a # b # rest) ! k) + snd ((a # b # rest) ! k)"
    have "fst b = fst a + snd a" using h[rule_format, of 0] by simp
    moreover have "gapFree (b # rest)"
    proof -
      have "\<forall>k. Suc k < length (b # rest) \<longrightarrow>
              fst ((b # rest) ! Suc k) = fst ((b # rest) ! k) + snd ((b # rest) ! k)"
      proof (intro allI impI)
        fix k assume "Suc k < length (b # rest)"
        then show "fst ((b # rest) ! Suc k) = fst ((b # rest) ! k) + snd ((b # rest) ! k)"
          using h[rule_format, of "Suc k"] by simp
      qed
      then show ?thesis using 1 by simp
    qed
    ultimately show "gapFree (a # b # rest)" by simp
  qed
qed simp_all

lemma quiet_run:
  "list_all (\<lambda>(e, m). \<not> carriesAudio m) qs \<Longrightarrow> nextAudioStartTimeRef s = 0 \<Longrightarrow>
   scheduled (handleMessages dur s qs) = scheduled s
   \<and> nextAudioStartTimeRef (handleMessages dur s qs) = 0
   \<and> outputAudioContextRef (handleMessages dur s qs) = outputAudioContextRef s"
proof (induction qs arbitrary: s)
  case Nil
  then show ?case by simp
next
  case (Cons em qs)
  obtain e m where em: "em = (e, m)" by (cases em)
  have q: "\<not> carriesAudio m" and qs: "list_all (\<lambda>(e, m). \<not> carriesAudio m) qs"
    using Cons.prems(1) em by simp_all
  have z: "nextAudioStartTimeRef (handleServerMessage dur e m s) = 0"
    using q Cons.prems(2)
    by (simp add: handleServerMessage_def stopOnInterrupted_def playAudio_def carriesAudio_def
          split: option.splits)
  show ?case
    using Cons.IH[OF qs z] handleServerMessage_quiet(1)[OF q, of dur e s] em by simp
qed

lemma cleanup_released: "released (cleanup s)"
  by (simp add: released_def cleanup_def)

lemma cleanup_status [simp]: "status (cleanup s) = status s"
  by (simp add: cleanup_def)

lemma cleanup_session [simp]: "\<not> sessionPromiseRef (cleanup s)"
  by (simp add: cleanup_def)

lemma cleanup_sessionsOpened [simp]: "sessionsOpened (cleanup s) = sessionsOpened s"
  by (simp add: cleanup_def sessionsOpened_def)

lemma playAudio_session [simp]:
  "status (playAudio dur e m s) = status s"
  "sessionPromiseRef (playAudio dur e m s) = sessionPromiseRef s"
  "sessionsOpened (playAudio dur e m s) = sessionsOpened s"
  by (simp_all add: playAudio_def sessionsOpened_def Let_def split: option.splits)

lemma stopOnInterrupted_session [simp]:
  "status (stopOnInterrupted m s) = status s"
  "sessionPromiseRef (stopOnInterrupted m s) = sessionPromiseRef s"
  "sessionsOpened (stopOnInterrupted m s) = sessionsOpened s"
  by (simp_all add: stopOnInterrupted_def sessionsOpened_def)

lemma inputDelta_session [simp]:
  "status (inputDelta e m s) = status s"
  "sessionPromiseRef (inputDelta e m s) = sessionPromiseRef s"
  "sessionsOpened (inputDelta e m s) = sessionsOpened s"
  by (simp_all add: inputDelta_def sessionsOpened_def Let_def split: option.splits)

lemma outputDelta_session [simp]:
  "status (outputDelta e m s) = status s"
  "sessionPromiseRef (outputDelta e m s) = sessionPromiseRef s"
  "sessionsOpened (outputDelta e m s) = sessionsOpened s"
  by (simp_all add: outputDelta_def sessionsOpened_def Let_def split: option.splits)

lemma completeTurn_session [simp]:
  "status (completeTurn m s) = status s"
  "sessionPromiseRef (completeTurn m s) = sessionPromiseRef s"
  "sessionsOpened (completeTurn m s) = sessionsOpened s"
  by (simp_all add: completeTurn_def sessionsOpened_def Let_def)

lemma runUpdaters_session [simp]:
  "status (runUpdaters s) = status s"
  "sessionPromiseRef (runUpdaters s) = sessionPromiseRef s"
  "sessionsOpened (runUpdaters s) = sessionsOpened s"
  by (simp_all add: runUpdaters_def sessionsOpened_def)

lemma handleServerMessage_session [simp]:
  "status (handleServerMessage dur e m s) = status s"
  "sessionPromiseRef (handleServerMessage dur e m s) = sessionPromiseRef s"
  "sessionsOpened (handleServerMessage dur e m s) = sessionsOpened s"
  by (simp_all add: handleServerMessage_def)

lemma connect_guard: "status s \<noteq> Idle \<or> sessionPromiseRef s \<Longrightarrow> connect outcome s = s"
  by (simp add: connect_def)

lemma step_not_idle:
  assumes "status s \<noteq> Idle"
  shows "status (step dur s ev) \<noteq> Idle"
    and "sessionsOpened (step dur s ev) = sessionsOpened s"
    and "\<not> sessionPromiseRef s \<Longrightarrow> \<not> sessionPromiseRef (step dur s ev)"
proof -
  have c: "connect outcome s = s" for outcome using assms by (simp add: connect_guard)
  show "status (step dur s ev) \<noteq> Idle"
    using assms by (cases ev) (simp_all add: c onopen_def onerror_def onclose_def sourceEnded_def)
  show "sessionsOpened (step dur s ev) = sessionsOpened s"
    by (cases ev) (simp_all add: c onopen_def onerror_def onclose_def sourceEnded_def,
                   simp_all add: sessionsOpened_def)
  show "\<not> sessionPromiseRef (step dur s ev)" if "\<not> sessionPromiseRef s"
    using that by (cases ev) (simp_all add: c onopen_def onerror_def onclose_def sourceEnded_def)
qed

lemma run_not_idle:
  "status s \<noteq> Idle \<Longrightarrow>
   status (run dur s evs) \<noteq> Idle
   \<and> sessionsOpened (run dur s evs) = sessionsOpened s
   \<and> (\<not> sessionPromiseRef s \<longrightarrow> \<not> sessionPromiseRef (run dur s evs))"
proof (induction evs arbitrary: s)
  case Nil
  then show ?case by (simp add: run_def)
next
  case (Cons ev evs)
  have r: "run dur s (ev # evs) = run dur (step dur s ev) evs" by (simp add: run_def)
  show ?case
    using Cons.IH[OF step_not_idle(1)[OF Cons.prems, of dur ev]] step_not_idle(2,3)[OF Cons.prems, of dur ev]
    unfolding r by auto
qed

lemma ex_sameMillisecond_eval:
  "transcripts ex_sameMillisecond =
     [\<lparr>speaker = User, entry_text = ''hola'', isFinal = False, entry_id = Some 1000,
       feedback = None, sources = None\<rparr>,
      \<lparr>speaker = Mary, entry_text = ''hi'', isFinal = False, entry_id = Some 1000,
       feedback = None, sources = None\<rparr>]
   \<and> pendingUpdaters ex_sameMillisecond = []
   \<and> currentUserTranscriptIdRef ex_sameMillisecond = Some 1000
   \<and> currentMaryTranscriptIdRef ex_sameMillisecond = Some 1000
   \<and> currentInputTranscriptionRef ex_sameMillisecond = ''hola''
   \<and> currentOutputTranscriptionRef ex_sameMillisecond = ''hi''"
  by (simp add: ex_sameMillisecond_def initialHook_def emptyMsg_def envAt_def
        handleServerMessage_def playAudio_def stopOnInterrupted_def inputDelta_def outputDelta_def
        completeTurn_def runUpdaters_def truthyId_def appendEntry_def replaceText_def Let_def)

lemma ex_turn_eval:
  "transcripts ex_turn =
     [\<lparr>speaker = User, entry_text = ''hola'', isFinal = False, entry_id = Some 1000,
       feedback = None, sources = None\<rparr>,
      \<lparr>speaker = Mary, entry_text = ''hi'', isFinal = False, entry_id = Some 1001,
       feedback = None, sources = None\<rparr>]
   \<and> pendingUpdaters ex_turn = []
   \<and> currentUserTranscriptIdRef ex_turn = Some 1000
   \<and> currentMaryTranscriptIdRef ex_turn = Some 1001
   \<and> currentInputTranscriptionRef ex_turn = ''hola''
   \<and> currentOutputTranscriptionRef ex_turn = ''hi''"
  by (simp add: ex_turn_def initialHook_def emptyMsg_def envAt_def
        handleServerMessage_def playAudio_def stopOnInterrupted_def inputDelta_def outputDelta_def
        completeTurn_def runUpdaters_def truthyId_def appendEntry_def replaceText_def Let_def)

subsection \<open>A turn whose entry ids are distinct\<close>

text \<open>
  For a message that completes no turn, running the queued updaters when the handler has
  returned gives what running each of them where it is queued gives
  (\<open>handleServerMessage_open_turn\<close>). When moreover the time stamps read during a turn
  are not 0, differ between the two speakers and are not the id of an older entry, the
  deltas of the turn are reconstructed: the entry of each current id is the only one with
  that id and holds the concatenation of the deltas in arrival order, and the older entries
  are untouched (\<open>transcript_reconstruction_distinct_ids\<close>). The updaters address
  entries by id (\<open>replaceText_by_id\<close>, \<open>replaceText_single\<close>).

  A message that completes a turn resets the accumulators and the id references
  (\<open>turn_completion_resets\<close>); when it carries no delta and no entry has a null id, it
  leaves every entry as it is, since its updaters run after the reset
  (\<open>turn_completion_keeps_entries\<close>); the next input delta appends a new entry
  (\<open>completed_turn_fresh_entry\<close>).
\<close>

lemma replaceText_by_id:
  "length (replaceText ref txt prev) = length prev
   \<and> (\<forall>k < length prev.
         replaceText ref txt prev ! k
           = (if entry_id (prev ! k) = ref then (prev ! k)\<lparr>entry_text := txt\<rparr> else prev ! k))"
  by (simp add: replaceText_def)

lemma replaceText_single:
  assumes "k < length prev" "\<forall>j < length prev. (entry_id (prev ! j) = ref) = (j = k)"
  shows "replaceText ref txt prev = prev[k := (prev ! k)\<lparr>entry_text := txt\<rparr>]"
  using assms by (auto simp: replaceText_def list_eq_iff_nth_eq nth_list_update)

lemma withId_replaceText:
  "withId i (replaceText ref txt ts) = replaceText ref txt (withId i ts)"
  by (induction ts) (simp_all add: withId_def replaceText_def)

lemma replaceText_other:
  "\<forall>t \<in> set ts. entry_id t \<noteq> ref \<Longrightarrow> replaceText ref txt ts = ts"
  by (induction ts) (simp_all add: replaceText_def)

lemma withId_append [simp]: "withId i (xs @ ys) = withId i xs @ withId i ys"
  by (simp add: withId_def)

lemma withId_none: "i \<notin> idsOf ts \<Longrightarrow> withId i ts = []"
  by (induction ts) (auto simp: withId_def idsOf_def)

lemma idsOf_append [simp]: "idsOf (xs @ ys) = idsOf xs \<union> idsOf ys"
  by (auto simp: idsOf_def)

lemma idsOf_entry [simp]: "idsOf [userEntry u a] = {u}" "idsOf [maryEntry u a] = {u}"
  by (auto simp: idsOf_def userEntry_def maryEntry_def)

lemma idsOf_replaceText [simp]: "idsOf (replaceText ref txt ts) = idsOf ts"
proof -
  have "entry_id ` set (replaceText ref txt ts) = entry_id ` set ts"
    by (induction ts) (simp_all add: replaceText_def)
  then show ?thesis by (simp add: idsOf_def)
qed

lemma replaceText_old:
  assumes "u \<notin> idsOf old"
  shows "replaceText (Some u) txt old = old"
proof (rule replaceText_other)
  show "\<forall>t \<in> set old. entry_id t \<noteq> Some u"
    using assms by (force simp: idsOf_def)
qed

lemma runUpdaters_idle: "pendingUpdaters s = [] \<Longrightarrow> runUpdaters s = s"
  by (cases s) (simp add: runUpdaters_def)

lemma inputDelta_turnInv:
  assumes inv: "turnInv US MS old s" and stamp: "nowInput e \<in> US"
    and fresh: "0 \<notin> US" "US \<inter> MS = {}" "US \<inter> idsOf old = {}"
  shows "turnInv US MS old (runUpdaters (inputDelta e m s))"
    and "currentInputTranscriptionRef (runUpdaters (inputDelta e m s))
           = currentInputTranscriptionRef s @ (case inputTranscription m of None \<Rightarrow> [] | Some txt \<Rightarrow> txt)"
    and "currentOutputTranscriptionRef (runUpdaters (inputDelta e m s)) = currentOutputTranscriptionRef s"
    and "currentUserTranscriptIdRef (runUpdaters (inputDelta e m s)) = None
           \<longleftrightarrow> currentUserTranscriptIdRef s = None \<and> inputTranscription m = None"
    and "currentMaryTranscriptIdRef (runUpdaters (inputDelta e m s)) = currentMaryTranscriptIdRef s"
proof -
  have pend: "pendingUpdaters s = []" using inv by (simp add: turnInv_def)
  show "currentInputTranscriptionRef (runUpdaters (inputDelta e m s))
           = currentInputTranscriptionRef s @ (case inputTranscription m of None \<Rightarrow> [] | Some txt \<Rightarrow> txt)"
    and "currentOutputTranscriptionRef (runUpdaters (inputDelta e m s)) = currentOutputTranscriptionRef s"
    and "currentMaryTranscriptIdRef (runUpdaters (inputDelta e m s)) = currentMaryTranscriptIdRef s"
    by (simp_all add: inputDelta_def runUpdaters_def Let_def split: option.splits)
  show "currentUserTranscriptIdRef (runUpdaters (inputDelta e m s)) = None
           \<longleftrightarrow> currentUserTranscriptIdRef s = None \<and> inputTranscription m = None"
    by (auto simp: inputDelta_def runUpdaters_def truthyId_def Let_def split: option.splits)
  show "turnInv US MS old (runUpdaters (inputDelta e m s))"
  proof (cases "inputTranscription m")
    case None
    then show ?thesis using inv pend by (simp add: inputDelta_def runUpdaters_idle)
  next
    case (Some delta)
    let ?acc = "currentInputTranscriptionRef s @ delta"
    show ?thesis
    proof (cases "currentUserTranscriptIdRef s")
      case None
      let ?u = "nowInput e"
      have step: "runUpdaters (inputDelta e m s)
          = s\<lparr>currentInputTranscriptionRef := ?acc, currentUserTranscriptIdRef := Some ?u,
              pendingUpdaters := [],
              transcripts := transcripts s @ [userEntry ?u ?acc]\<rparr>"
        using Some None pend
        by (simp add: inputDelta_def runUpdaters_def truthyId_def appendEntry_def userEntry_def Let_def)
      have sub: "idsOf (transcripts s)
                   \<subseteq> idsOf old \<union> set_option (currentMaryTranscriptIdRef s)"
        using inv None by (simp add: turnInv_def)
      have n1: "?u \<notin> idsOf old" using stamp fresh(3) by blast
      have n2: "?u \<notin> set_option (currentMaryTranscriptIdRef s)"
      proof (cases "currentMaryTranscriptIdRef s")
        case None
        then show ?thesis by simp
      next
        case (Some v)
        then have "v \<in> MS" using inv by (simp add: turnInv_def)
        then have "v \<noteq> ?u" using stamp fresh(2) by blast
        then show ?thesis using Some by simp
      qed
      have notin: "?u \<notin> idsOf (transcripts s)"
        using sub n1 n2 by blast
      let ?s' = "runUpdaters (inputDelta e m s)"
      have c1: "\<exists>rest. transcripts ?s' = old @ rest"
        unfolding step using inv by (auto simp: turnInv_def)
      have c2: "idsOf (transcripts ?s')
                  \<subseteq> idsOf old \<union> set_option (currentUserTranscriptIdRef ?s')
                      \<union> set_option (currentMaryTranscriptIdRef ?s')"
        unfolding step using sub by auto
      have "withId ?u (transcripts s @ [userEntry ?u ?acc]) = [userEntry ?u ?acc]"
        by (simp add: withId_none[OF notin]) (simp add: withId_def userEntry_def)
      then have c3: "case currentUserTranscriptIdRef ?s' of
                  None \<Rightarrow> currentInputTranscriptionRef ?s' = []
                | Some u \<Rightarrow> u \<in> US \<and> withId u (transcripts ?s')
                                       = [userEntry u (currentInputTranscriptionRef ?s')]"
        unfolding step using stamp by simp
      have c4: "case currentMaryTranscriptIdRef ?s' of
                  None \<Rightarrow> currentOutputTranscriptionRef ?s' = []
                | Some v \<Rightarrow> v \<in> MS \<and> withId v (transcripts ?s')
                                       = [maryEntry v (currentOutputTranscriptionRef ?s')]"
      proof (cases "currentMaryTranscriptIdRef s")
        case None
        then show ?thesis unfolding step using inv by (simp add: turnInv_def)
      next
        case (Some v)
        then have v: "v \<in> MS" "withId v (transcripts s) = [maryEntry v (currentOutputTranscriptionRef s)]"
          using inv by (simp_all add: turnInv_def)
        have "v \<noteq> ?u" using v(1) stamp fresh(2) by blast
        then have "withId v [userEntry ?u ?acc] = []" by (simp add: withId_def userEntry_def)
        then show ?thesis unfolding step using Some v by simp
      qed
      have c0: "pendingUpdaters ?s' = []" by (simp add: runUpdaters_def)
      show ?thesis
        unfolding turnInv_def using c0 c1 c2 c3 c4 by blast
    next
      case u: (Some u)
      have uI: "u \<in> US" and uE: "withId u (transcripts s) = [userEntry u (currentInputTranscriptionRef s)]"
        using inv u by (simp_all add: turnInv_def)
      have u0: "u \<noteq> 0" using uI fresh by auto
      have step: "runUpdaters (inputDelta e m s)
          = s\<lparr>currentInputTranscriptionRef := ?acc, pendingUpdaters := [],
              transcripts := replaceText (Some u) ?acc (transcripts s)\<rparr>"
        using Some u u0 pend by (simp add: inputDelta_def runUpdaters_def truthyId_def Let_def)
      let ?s' = "runUpdaters (inputDelta e m s)"
      have c1: "\<exists>rest. transcripts ?s' = old @ rest"
      proof -
        obtain rest where r: "transcripts s = old @ rest" using inv by (auto simp: turnInv_def)
        have "u \<notin> idsOf old" using uI fresh(3) by blast
        then have "replaceText (Some u) ?acc old = old" by (rule replaceText_old)
        then have "replaceText (Some u) ?acc (transcripts s) = old @ replaceText (Some u) ?acc rest"
          unfolding r by (simp add: replaceText_def)
        then show ?thesis unfolding step by simp
      qed
      have c2: "idsOf (transcripts ?s')
                  \<subseteq> idsOf old \<union> set_option (currentUserTranscriptIdRef ?s')
                      \<union> set_option (currentMaryTranscriptIdRef ?s')"
        unfolding step using inv u by (simp add: turnInv_def)
      have "withId u (replaceText (Some u) ?acc (transcripts s)) = [userEntry u ?acc]"
        by (simp add: withId_replaceText uE) (simp add: replaceText_def userEntry_def)
      then have c3: "case currentUserTranscriptIdRef ?s' of
                  None \<Rightarrow> currentInputTranscriptionRef ?s' = []
                | Some u \<Rightarrow> u \<in> US \<and> withId u (transcripts ?s')
                                       = [userEntry u (currentInputTranscriptionRef ?s')]"
        unfolding step using u uI by simp
      have c4: "case currentMaryTranscriptIdRef ?s' of
                  None \<Rightarrow> currentOutputTranscriptionRef ?s' = []
                | Some v \<Rightarrow> v \<in> MS \<and> withId v (transcripts ?s')
                                       = [maryEntry v (currentOutputTranscriptionRef ?s')]"
      proof (cases "currentMaryTranscriptIdRef s")
        case None
        then show ?thesis unfolding step using inv by (simp add: turnInv_def)
      next
        case (Some v)
        then have v: "v \<in> MS" "withId v (transcripts s) = [maryEntry v (currentOutputTranscriptionRef s)]"
          using inv by (simp_all add: turnInv_def)
        have "v \<noteq> u" using v(1) uI fresh(2) by blast
        then have "withId v (replaceText (Some u) ?acc (transcripts s))
                     = [maryEntry v (currentOutputTranscriptionRef s)]"
          by (simp add: withId_replaceText v(2)) (simp add: replaceText_def maryEntry_def)
        then show ?thesis unfolding step using Some v by simp
      qed
      have c0: "pendingUpdaters ?s' = []" by (simp add: runUpdaters_def)
      show ?thesis
        unfolding turnInv_def using c0 c1 c2 c3 c4 by blast
    qed
  qed
qed

lemma outputDelta_turnInv:
  assumes inv: "turnInv US MS old s" and stamp: "nowOutput e \<in> MS"
    and fresh: "0 \<notin> MS" "MS \<inter> US = {}" "MS \<inter> idsOf old = {}"
  shows "turnInv US MS old (runUpdaters (outputDelta e m s))"
    and "currentOutputTranscriptionRef (runUpdaters (outputDelta e m s))
           = currentOutputTranscriptionRef s @ (case outputTranscription m of None \<Rightarrow> [] | Some txt \<Rightarrow> txt)"
    and "currentInputTranscriptionRef (runUpdaters (outputDelta e m s)) = currentInputTranscriptionRef s"
    and "currentMaryTranscriptIdRef (runUpdaters (outputDelta e m s)) = None
           \<longleftrightarrow> currentMaryTranscriptIdRef s = None \<and> outputTranscription m = None"
    and "currentUserTranscriptIdRef (runUpdaters (outputDelta e m s)) = currentUserTranscriptIdRef s"
proof -
  have pend: "pendingUpdaters s = []" using inv by (simp add: turnInv_def)
  show "currentOutputTranscriptionRef (runUpdaters (outputDelta e m s))
           = currentOutputTranscriptionRef s @ (case outputTranscription m of None \<Rightarrow> [] | Some txt \<Rightarrow> txt)"
    and "currentInputTranscriptionRef (runUpdaters (outputDelta e m s)) = currentInputTranscriptionRef s"
    and "currentUserTranscriptIdRef (runUpdaters (outputDelta e m s)) = currentUserTranscriptIdRef s"
    by (simp_all add: outputDelta_def runUpdaters_def Let_def split: option.splits)
  show "currentMaryTranscriptIdRef (runUpdaters (outputDelta e m s)) = None
           \<longleftrightarrow> currentMaryTranscriptIdRef s = None \<and> outputTranscription m = None"
    by (auto simp: outputDelta_def runUpdaters_def truthyId_def Let_def split: option.splits)
  show "turnInv US MS old (runUpdaters (outputDelta e m s))"
  proof (cases "outputTranscription m")
    case None
    then show ?thesis using inv pend by (simp add: outputDelta_def runUpdaters_idle)
  next
    case (Some delta)
    let ?acc = "currentOutputTranscriptionRef s @ delta"
    show ?thesis
    proof (cases "currentMaryTranscriptIdRef s")
      case None
      let ?u = "nowOutput e"
      have step: "runUpdaters (outputDelta e m s)
          = s\<lparr>currentOutputTranscriptionRef := ?acc, currentMaryTranscriptIdRef := Some ?u,
              pendingUpdaters := [],
              transcripts := transcripts s @ [maryEntry ?u ?acc]\<rparr>"
        using Some None pend
        by (simp add: outputDelta_def runUpdaters_def truthyId_def appendEntry_def maryEntry_def Let_def)
      have sub: "idsOf (transcripts s)
                   \<subseteq> idsOf old \<union> set_option (currentUserTranscriptIdRef s)"
        using inv None by (simp add: turnInv_def)
      have n1: "?u \<notin> idsOf old" using stamp fresh(3) by blast
      have n2: "?u \<notin> set_option (currentUserTranscriptIdRef s)"
      proof (cases "currentUserTranscriptIdRef s")
        case None
        then show ?thesis by simp
      next
        case (Some v)
        then have "v \<in> US" using inv by (simp add: turnInv_def)
        then have "v \<noteq> ?u" using stamp fresh(2) by blast
        then show ?thesis using Some by simp
      qed
      have notin: "?u \<notin> idsOf (transcripts s)"
        using sub n1 n2 by blast
      let ?s' = "runUpdaters (outputDelta e m s)"
      have c1: "\<exists>rest. transcripts ?s' = old @ rest"
        unfolding step using inv by (auto simp: turnInv_def)
      have c2: "idsOf (transcripts ?s')
                  \<subseteq> idsOf old \<union> set_option (currentMaryTranscriptIdRef ?s')
                      \<union> set_option (currentUserTranscriptIdRef ?s')"
        unfolding step using sub by auto
      have "withId ?u (transcripts s @ [maryEntry ?u ?acc]) = [maryEntry ?u ?acc]"
        by (simp add: withId_none[OF notin]) (simp add: withId_def maryEntry_def)
      then have c3: "case currentMaryTranscriptIdRef ?s' of
                  None \<Rightarrow> currentOutputTranscriptionRef ?s' = []
                | Some u \<Rightarrow> u \<in> MS \<and> withId u (transcripts ?s')
                                       = [maryEntry u (currentOutputTranscriptionRef ?s')]"
        unfolding step using stamp by simp
      have c4: "case currentUserTranscriptIdRef ?s' of
                  None \<Rightarrow> currentInputTranscriptionRef ?s' = []
                | Some v \<Rightarrow> v \<in> US \<and> withId v (transcripts ?s')
                                       = [userEntry v (currentInputTranscriptionRef ?s')]"
      proof (cases "currentUserTranscriptIdRef s")
        case None
        then show ?thesis unfolding step using inv by (simp add: turnInv_def)
      next
        case (Some v)
        then have v: "v \<in> US" "withId v (transcripts s) = [userEntry v (currentInputTranscriptionRef s)]"
          using inv by (simp_all add: turnInv_def)
        have "v \<noteq> ?u" using v(1) stamp fresh(2) by blast
        then have "withId v [maryEntry ?u ?acc] = []" by (simp add: withId_def maryEntry_def)
        then show ?thesis unfolding step using Some v by simp
      qed
      have c0: "pendingUpdaters ?s' = []" by (simp add: runUpdaters_def)
      show ?thesis
        unfolding turnInv_def using c0 c1 c2 c3 c4 by blast
    next
      case u: (Some u)
      have uI: "u \<in> MS" and uE: "withId u (transcripts s) = [maryEntry u (currentOutputTranscriptionRef s)]"
        using inv u by (simp_all add: turnInv_def)
      have u0: "u \<noteq> 0" using uI fresh by auto
      have step: "runUpdaters (outputDelta e m s)
          = s\<lparr>currentOutputTranscriptionRef := ?acc, pendingUpdaters := [],
              transcripts := replaceText (Some u) ?acc (transcripts s)\<rparr>"
        using Some u u0 pend by (simp add: outputDelta_def runUpdaters_def truthyId_def Let_def)
      let ?s' = "runUpdaters (outputDelta e m s)"
      have c1: "\<exists>rest. transcripts ?s' = old @ rest"
      proof -
        obtain rest where r: "transcripts s = old @ rest" using inv by (auto simp: turnInv_def)
        have "u \<notin> idsOf old" using uI fresh(3) by blast
        then have "replaceText (Some u) ?acc old = old" by (rule replaceText_old)
        then have "replaceText (Some u) ?acc (transcripts s) = old @ replaceText (Some u) ?acc rest"
          unfolding r by (simp add: replaceText_def)
        then show ?thesis unfolding step by simp
      qed
      have c2: "idsOf (transcripts ?s')
                  \<subseteq> idsOf old \<union> set_option (currentMaryTranscriptIdRef ?s')
                      \<union> set_option (currentUserTranscriptIdRef ?s')"
        unfolding step using inv u by (simp add: turnInv_def)
      have "withId u (replaceText (Some u) ?acc (transcripts s)) = [maryEntry u ?acc]"
        by (simp add: withId_replaceText uE) (simp add: replaceText_def maryEntry_def)
      then have c3: "case currentMaryTranscriptIdRef ?s' of
                  None \<Rightarrow> currentOutputTranscriptionRef ?s' = []
                | Some u \<Rightarrow> u \<in> MS \<and> withId u (transcripts ?s')
                                       = [maryEntry u (currentOutputTranscriptionRef ?s')]"
        unfolding step using u uI by simp
      have c4: "case currentUserTranscriptIdRef ?s' of
                  None \<Rightarrow> currentInputTranscriptionRef ?s' = []
                | Some v \<Rightarrow> v \<in> US \<and> withId v (transcripts ?s')
                                       = [userEntry v (currentInputTranscriptionRef ?s')]"
      proof (cases "currentUserTranscriptIdRef s")
        case None
        then show ?thesis unfolding step using inv by (simp add: turnInv_def)
      next
        case (Some v)
        then have v: "v \<in> US" "withId v (transcripts s) = [userEntry v (currentInputTranscriptionRef s)]"
          using inv by (simp_all add: turnInv_def)
        have "v \<noteq> u" using v(1) uI fresh(2) by blast
        then have "withId v (replaceText (Some u) ?acc (transcripts s))
                     = [userEntry v (currentInputTranscriptionRef s)]"
          by (simp add: withId_replaceText v(2)) (simp add: replaceText_def userEntry_def)
        then show ?thesis unfolding step using Some v by simp
      qed
      have c0: "pendingUpdaters ?s' = []" by (simp add: runUpdaters_def)
      show ?thesis
        unfolding turnInv_def using c0 c1 c2 c3 c4 by blast
    qed
  qed
qed

lemma render_between_blocks:
  assumes "pendingUpdaters s = []"
  shows "runUpdaters (outputDelta e m (inputDelta e m s))
           = runUpdaters (outputDelta e m (runUpdaters (inputDelta e m s)))"
proof (cases "inputTranscription m")
  case None
  then show ?thesis using assms by (simp add: inputDelta_def runUpdaters_idle)
next
  case din: (Some din)
  show ?thesis
  proof (cases "outputTranscription m")
    case None
    then show ?thesis
      by (simp add: outputDelta_def) (simp add: runUpdaters_def)
  next
    case dout: (Some dout)
    show ?thesis
      using assms din dout
      by (cases "truthyId (currentUserTranscriptIdRef s)";
          cases "truthyId (currentMaryTranscriptIdRef s)")
         (simp_all add: inputDelta_def outputDelta_def runUpdaters_def Let_def)
  qed
qed

lemma blocks_pending [simp]:
  "pendingUpdaters (stopOnInterrupted m s) = pendingUpdaters s"
  "pendingUpdaters (playAudio dur e m s) = pendingUpdaters s"
  by (simp_all add: stopOnInterrupted_def playAudio_def Let_def split: option.splits)

lemma handleServerMessage_open_turn:
  assumes "\<not> turnComplete m" "pendingUpdaters s = []"
  shows "handleServerMessage dur e m s
           = runUpdaters (outputDelta e m (runUpdaters (inputDelta e m
               (stopOnInterrupted m (playAudio dur e m s)))))"
proof -
  have "pendingUpdaters (stopOnInterrupted m (playAudio dur e m s)) = []"
    using assms(2) by simp
  from render_between_blocks[OF this, of e m] show ?thesis
    using assms(1) by (simp add: handleServerMessage_def completeTurn_def)
qed

lemma handleServerMessage_turn:
  "transcripts (stopOnInterrupted m (playAudio dur e m s)) = transcripts s"
  "currentInputTranscriptionRef (stopOnInterrupted m (playAudio dur e m s)) = currentInputTranscriptionRef s"
  "currentOutputTranscriptionRef (stopOnInterrupted m (playAudio dur e m s)) = currentOutputTranscriptionRef s"
  "currentUserTranscriptIdRef (stopOnInterrupted m (playAudio dur e m s)) = currentUserTranscriptIdRef s"
  "currentMaryTranscriptIdRef (stopOnInterrupted m (playAudio dur e m s)) = currentMaryTranscriptIdRef s"
  "pendingUpdaters (stopOnInterrupted m (playAudio dur e m s)) = pendingUpdaters s"
  by (simp_all add: stopOnInterrupted_def playAudio_def Let_def split: option.splits)

lemma handleServerMessage_turnInv:
  assumes inv: "turnInv US MS old s" and stamps: "nowInput e \<in> US" "nowOutput e \<in> MS"
    and fresh: "0 \<notin> US" "0 \<notin> MS" "US \<inter> MS = {}" "US \<inter> idsOf old = {}"
               "MS \<inter> idsOf old = {}"
    and open_turn: "\<not> turnComplete m"
  shows "turnInv US MS old (handleServerMessage dur e m s)"
    and "currentInputTranscriptionRef (handleServerMessage dur e m s)
           = currentInputTranscriptionRef s @ (case inputTranscription m of None \<Rightarrow> [] | Some d \<Rightarrow> d)"
    and "currentOutputTranscriptionRef (handleServerMessage dur e m s)
           = currentOutputTranscriptionRef s @ (case outputTranscription m of None \<Rightarrow> [] | Some d \<Rightarrow> d)"
    and "currentUserTranscriptIdRef (handleServerMessage dur e m s) = None
           \<longleftrightarrow> currentUserTranscriptIdRef s = None \<and> inputTranscription m = None"
    and "currentMaryTranscriptIdRef (handleServerMessage dur e m s) = None
           \<longleftrightarrow> currentMaryTranscriptIdRef s = None \<and> outputTranscription m = None"
proof -
  let ?s0 = "stopOnInterrupted m (playAudio dur e m s)"
  have pend: "pendingUpdaters s = []" using inv by (simp add: turnInv_def)
  have h: "handleServerMessage dur e m s
             = runUpdaters (outputDelta e m (runUpdaters (inputDelta e m ?s0)))"
    by (rule handleServerMessage_open_turn[OF open_turn pend])
  have inv0: "turnInv US MS old ?s0"
    using inv unfolding turnInv_def by (simp only: handleServerMessage_turn)
  have f2: "MS \<inter> US = {}" using fresh(3) by blast
  note i = inputDelta_turnInv[OF inv0 stamps(1) fresh(1) fresh(3) fresh(4), of m]
  note o = outputDelta_turnInv[OF i(1) stamps(2) fresh(2) f2 fresh(5), of m]
  show "turnInv US MS old (handleServerMessage dur e m s)" unfolding h by (rule o(1))
  show "currentInputTranscriptionRef (handleServerMessage dur e m s)
           = currentInputTranscriptionRef s @ (case inputTranscription m of None \<Rightarrow> [] | Some d \<Rightarrow> d)"
    unfolding h using o(3) i(2) by (simp add: handleServerMessage_turn)
  show "currentOutputTranscriptionRef (handleServerMessage dur e m s)
           = currentOutputTranscriptionRef s @ (case outputTranscription m of None \<Rightarrow> [] | Some d \<Rightarrow> d)"
    unfolding h using o(2) i(3) by (simp add: handleServerMessage_turn)
  show "currentUserTranscriptIdRef (handleServerMessage dur e m s) = None
           \<longleftrightarrow> currentUserTranscriptIdRef s = None \<and> inputTranscription m = None"
    unfolding h using o(5) i(4) by (simp add: handleServerMessage_turn)
  show "currentMaryTranscriptIdRef (handleServerMessage dur e m s) = None
           \<longleftrightarrow> currentMaryTranscriptIdRef s = None \<and> outputTranscription m = None"
    unfolding h using o(4) i(5) by (simp add: handleServerMessage_turn)
qed

lemma turn_run:
  assumes fresh: "0 \<notin> US" "0 \<notin> MS" "US \<inter> MS = {}" "US \<inter> idsOf old = {}"
                 "MS \<inter> idsOf old = {}"
  shows "turnInv US MS old s \<Longrightarrow>
         list_all (\<lambda>(e, m). \<not> turnComplete m \<and> nowInput e \<in> US \<and> nowOutput e \<in> MS) ms \<Longrightarrow>
         turnInv US MS old (handleMessages dur s ms)
         \<and> currentInputTranscriptionRef (handleMessages dur s ms)
             = currentInputTranscriptionRef s @ inputText ms
         \<and> currentOutputTranscriptionRef (handleMessages dur s ms)
             = currentOutputTranscriptionRef s @ outputText ms
         \<and> (currentUserTranscriptIdRef (handleMessages dur s ms) = None
              \<longleftrightarrow> currentUserTranscriptIdRef s = None
                  \<and> list_all (\<lambda>(e, m). inputTranscription m = None) ms)
         \<and> (currentMaryTranscriptIdRef (handleMessages dur s ms) = None
              \<longleftrightarrow> currentMaryTranscriptIdRef s = None
                  \<and> list_all (\<lambda>(e, m). outputTranscription m = None) ms)"
proof (induction ms arbitrary: s)
  case Nil
  then show ?case by (simp add: inputText_def outputText_def)
next
  case (Cons em ms)
  obtain e m where em: "em = (e, m)" by (cases em)
  have hd: "\<not> turnComplete m" "nowInput e \<in> US" "nowOutput e \<in> MS"
    and tl: "list_all (\<lambda>(e, m). \<not> turnComplete m \<and> nowInput e \<in> US \<and> nowOutput e \<in> MS) ms"
    using Cons.prems(2) em by simp_all
  note st = handleServerMessage_turnInv[OF Cons.prems(1) hd(2,3) fresh hd(1), of dur]
  note ih = Cons.IH[OF st(1) tl]
  show ?case
    using ih st(2,3,4,5) em by (simp add: inputText_def outputText_def)
qed

lemma transcript_reconstruction_distinct_ids:
  assumes start: "currentInputTranscriptionRef s = []" "currentUserTranscriptIdRef s = None"
                 "currentOutputTranscriptionRef s = []" "currentMaryTranscriptIdRef s = None"
    and idle: "pendingUpdaters s = []"
    and msgs: "list_all (\<lambda>(e, m). \<not> turnComplete m \<and> nowInput e \<in> US \<and> nowOutput e \<in> MS) ms"
    and fresh: "0 \<notin> US" "0 \<notin> MS" "US \<inter> MS = {}" "US \<inter> idsOf (transcripts s) = {}"
               "MS \<inter> idsOf (transcripts s) = {}"
  shows "take (length (transcripts s)) (transcripts (handleMessages dur s ms)) = transcripts s
         \<and> currentInputTranscriptionRef (handleMessages dur s ms) = inputText ms
         \<and> currentOutputTranscriptionRef (handleMessages dur s ms) = outputText ms
         \<and> (case currentUserTranscriptIdRef (handleMessages dur s ms) of
               None \<Rightarrow> list_all (\<lambda>(e, m). inputTranscription m = None) ms
             | Some u \<Rightarrow> withId u (transcripts (handleMessages dur s ms)) = [userEntry u (inputText ms)])
         \<and> (case currentMaryTranscriptIdRef (handleMessages dur s ms) of
               None \<Rightarrow> list_all (\<lambda>(e, m). outputTranscription m = None) ms
             | Some v \<Rightarrow> withId v (transcripts (handleMessages dur s ms)) = [maryEntry v (outputText ms)])"
proof -
  let ?s' = "handleMessages dur s ms"
  have inv: "turnInv US MS (transcripts s) s"
    using start idle by (simp add: turnInv_def)
  note r = turn_run[OF fresh inv msgs, of dur]
  have i: "turnInv US MS (transcripts s) ?s'"
    and ci: "currentInputTranscriptionRef ?s' = inputText ms"
    and co: "currentOutputTranscriptionRef ?s' = outputText ms"
    and nu: "currentUserTranscriptIdRef ?s' = None \<longleftrightarrow> list_all (\<lambda>(e, m). inputTranscription m = None) ms"
    and nm: "currentMaryTranscriptIdRef ?s' = None \<longleftrightarrow> list_all (\<lambda>(e, m). outputTranscription m = None) ms"
    using r start by simp_all
  have tk: "take (length (transcripts s)) (transcripts ?s') = transcripts s"
    using i by (auto simp: turnInv_def)
  have user: "case currentUserTranscriptIdRef ?s' of
               None \<Rightarrow> list_all (\<lambda>(e, m). inputTranscription m = None) ms
             | Some u \<Rightarrow> withId u (transcripts ?s') = [userEntry u (inputText ms)]"
    using i nu ci by (cases "currentUserTranscriptIdRef ?s'") (simp_all add: turnInv_def)
  have mary: "case currentMaryTranscriptIdRef ?s' of
               None \<Rightarrow> list_all (\<lambda>(e, m). outputTranscription m = None) ms
             | Some v \<Rightarrow> withId v (transcripts ?s') = [maryEntry v (outputText ms)]"
    using i nm co by (cases "currentMaryTranscriptIdRef ?s'") (simp_all add: turnInv_def)
  show ?thesis by (intro conjI tk ci co user mary)
qed

lemma finalize_none:
  assumes "\<forall>t \<in> set ts. entry_id t \<noteq> None"
  shows "finalizeUser None txt ts = ts" and "finalizeMary None txt srcs ts = ts"
  using assms by (induction ts) (auto simp: finalizeUser_def finalizeMary_def)

lemma turn_completion_resets:
  assumes "turnComplete m"
  shows "currentInputTranscriptionRef (handleServerMessage dur e m s) = []"
    and "currentOutputTranscriptionRef (handleServerMessage dur e m s) = []"
    and "currentUserTranscriptIdRef (handleServerMessage dur e m s) = None"
    and "currentMaryTranscriptIdRef (handleServerMessage dur e m s) = None"
    and "pendingUpdaters (handleServerMessage dur e m s) = []"
  using assms by (simp_all add: handleServerMessage_def completeTurn_def runUpdaters_def Let_def)

lemma turn_completion_keeps_entries:
  assumes tc: "turnComplete m"
    and quiet: "inputTranscription m = None" "outputTranscription m = None"
    and idle: "pendingUpdaters s = []"
    and ids: "\<forall>t \<in> set (transcripts s). entry_id t \<noteq> None"
  shows "transcripts (handleServerMessage dur e m s) = transcripts s"
proof -
  let ?s0 = "stopOnInterrupted m (playAudio dur e m s)"
  have s0: "transcripts ?s0 = transcripts s" "pendingUpdaters ?s0 = []"
    using idle by (simp_all add: handleServerMessage_turn)
  have h: "handleServerMessage dur e m s = runUpdaters (completeTurn m ?s0)"
    using quiet by (simp add: handleServerMessage_def inputDelta_def outputDelta_def)
  show ?thesis
    unfolding h using tc s0 finalize_none[OF ids]
    by (simp add: completeTurn_def runUpdaters_def Let_def)
qed

lemma completed_turn_fresh_entry:
  assumes "turnComplete m"
    and "inputTranscription m' = Some d" "outputTranscription m' = None" "\<not> turnComplete m'"
  shows "transcripts (handleServerMessage dur e' m' (handleServerMessage dur e m s))
           = transcripts (handleServerMessage dur e m s) @ [userEntry (nowInput e') d]"
proof -
  let ?s1 = "handleServerMessage dur e m s"
  note r = turn_completion_resets[OF assms(1), of dur e s]
  let ?s0 = "stopOnInterrupted m' (playAudio dur e' m' ?s1)"
  have s0: "transcripts ?s0 = transcripts ?s1" "pendingUpdaters ?s0 = []"
    "currentInputTranscriptionRef ?s0 = []" "currentUserTranscriptIdRef ?s0 = None"
    using r by (simp_all add: handleServerMessage_turn)
  have "handleServerMessage dur e' m' ?s1 = runUpdaters (inputDelta e' m' ?s0)"
    using assms(3,4) by (simp add: handleServerMessage_def completeTurn_def outputDelta_def)
  then show ?thesis
    using assms(2) s0
    by (simp add: inputDelta_def runUpdaters_def truthyId_def appendEntry_def userEntry_def Let_def)
qed

subsection \<open>The claims\<close>

text \<open>
  C9. getTraitLevel is a total three-way partition of the numbers: it returns
  \<open>Bajo\<close> exactly when the value is at most 3, \<open>Medio\<close> exactly when the value is
  greater than 3 and at most 7, and \<open>Alto\<close> exactly when the value is greater than 7.
  The result type has these three levels and no other.
\<close>

theorem getTraitLevel_partition:
  "(getTraitLevel v = Bajo \<longleftrightarrow> v \<le> 3)
   \<and> (getTraitLevel v = Medio \<longleftrightarrow> 3 < v \<and> v \<le> 7)
   \<and> (getTraitLevel v = Alto \<longleftrightarrow> 7 < v)
   \<and> getTraitLevel v \<in> {Bajo, Medio, Alto}"
  by (auto simp: getTraitLevel_def)

text \<open>
  C10. handleFeedback keeps the length and the order of the transcripts. At every
  position, an entry whose id is the given one gets the given feedback and keeps its
  speaker, text, isFinal, id and sources; an entry with another id is unchanged. When no
  entry has the given id the whole list is unchanged.
\<close>

theorem handleFeedback_frame:
  "length (handleFeedback i fb prev) = length prev
   \<and> (\<forall>k < length prev.
        (entry_id (prev ! k) = i \<longrightarrow>
           feedback (handleFeedback i fb prev ! k) = Some fb
           \<and> speaker (handleFeedback i fb prev ! k) = speaker (prev ! k)
           \<and> entry_text (handleFeedback i fb prev ! k) = entry_text (prev ! k)
           \<and> isFinal (handleFeedback i fb prev ! k) = isFinal (prev ! k)
           \<and> entry_id (handleFeedback i fb prev ! k) = entry_id (prev ! k)
           \<and> sources (handleFeedback i fb prev ! k) = sources (prev ! k))
        \<and> (entry_id (prev ! k) \<noteq> i \<longrightarrow> handleFeedback i fb prev ! k = prev ! k))
   \<and> ((\<forall>e \<in> set prev. entry_id e \<noteq> i) \<longrightarrow> handleFeedback i fb prev = prev)"
proof -
  have unchanged: "(\<forall>e \<in> set prev. entry_id e \<noteq> i) \<longrightarrow> handleFeedback i fb prev = prev"
    unfolding handleFeedback_def by (induction prev) auto
  show ?thesis
    using unchanged by (simp add: handleFeedback_def)
qed

theorem handleFeedback_frame_witness:
  "1 < length ex_history \<and> entry_id (ex_history ! 1) = Some 2
   \<and> feedback (handleFeedback (Some 2) Up ex_history ! 1) = Some Up
   \<and> entry_text (handleFeedback (Some 2) Up ex_history ! 1) = ''buenas''
   \<and> entry_id (ex_history ! 0) \<noteq> Some 2
   \<and> handleFeedback (Some 2) Up ex_history ! 0 = ex_history ! 0
   \<and> entry_id (ex_history ! 0) \<noteq> Some 5 \<and> entry_id (ex_history ! 1) \<noteq> Some 5
   \<and> handleFeedback (Some 5) Down ex_history = ex_history"
  using handleFeedback_frame [of "Some 2" Up ex_history]
        handleFeedback_frame [of "Some 5" Down ex_history]
  by (simp add: ex_history_def)

text \<open>
  C7. sendChatMessage sends a contents list of length (length of the history) + 1. Its
  i-th element carries the text of the i-th history entry, with role user when the entry's
  speaker is the user and role model otherwise, and its last element is the prompt with
  role user. When the service answers, the result is the response text with the sources of
  the first candidate's grounding chunks: chunk by chunk, a search source for a web chunk,
  a maps source for a maps chunk and after it a review source for each review snippet
  whose review is an object with a uri.
\<close>

theorem sendChatMessage_request_and_sources:
  "length (contents (chatRequest tmpl prompt history settings location)) = length history + 1
   \<and> (\<forall>i < length history.
         contents (chatRequest tmpl prompt history settings location) ! i
           = \<lparr>role = (if speaker (history ! i) = User then ''user'' else ''model''),
              parts = [entry_text (history ! i)]\<rparr>)
   \<and> last (contents (chatRequest tmpl prompt history settings location))
        = \<lparr>role = ''user'', parts = [prompt]\<rparr>
   \<and> (\<forall>r. api (chatRequest tmpl prompt history settings location) = Inr r \<longrightarrow>
          sendChatMessage api tmpl prompt history settings location
            = Inr \<lparr>result_text = response_text r,
                   result_sources =
                     concat (map (sourcesOfChunk reviewTitleService)
                       (case firstCandidateChunks r of None \<Rightarrow> [] | Some cs \<Rightarrow> cs))\<rparr>)"
  by (simp add: chatRequest_def mapHistoryToGenAI_def sendChatMessage_def extractSources_sources
        nth_append)

theorem sendChatMessage_request_and_sources_witness:
  "0 < length ex_history \<and> 1 < length ex_history
   \<and> contents (chatRequest (\<lambda>a b c. []) ''dime'' ex_history ex_settings None) ! 0
        = \<lparr>role = ''user'', parts = [''hola'']\<rparr>
   \<and> contents (chatRequest (\<lambda>a b c. []) ''dime'' ex_history ex_settings None) ! 1
        = \<lparr>role = ''model'', parts = [''buenas'']\<rparr>
   \<and> (sendChatMessage (\<lambda>req. Inr ex_response) (\<lambda>a b c. []) ''dime'' ex_history ex_settings None
         :: unit + chat_result)
        = Inr \<lparr>result_text = ''claro'',
               result_sources =
                 [\<lparr>uri = ''w'', title = ''w'', source_type = Search\<rparr>,
                  \<lparr>uri = ''m'', title = ''Cafe'', source_type = Maps\<rparr>,
                  \<lparr>uri = ''r'', title = ''rico'', source_type = Review\<rparr>]\<rparr>"
  using sendChatMessage_request_and_sources
          [of "\<lambda>a b c. []" "''dime''" ex_history ex_settings None
              "\<lambda>req. Inr ex_response :: unit + response"]
  by (simp add: ex_history_def ex_response_def ex_chunks_def firstCandidateChunks_def
        sourcesOfChunk_def reviewSource_def orElse_def)

text \<open>
  C8 as stated fails: a 16-bit sample is an integer, and the clamped product need not be
  one. The sample \<open>2\<^sup>-\<^sup>1\<^sup>6\<close> is encoded as 0, while its product with 32768 is one half.
\<close>

theorem createPcmBlob_not_clamped_product:
  "of_int (pcmSamples [1 / 65536] ! 0) \<noteq> max (- 32768) (min 32767 ((1 / 65536) * 32768 :: rat))"
proof -
  have "pcmSamples [1 / 65536] = [0]" by code_simp
  then show ?thesis by simp
qed

text \<open>
  C8, amended. createPcmBlob produces exactly one 16-bit sample per input sample. Each
  output sample is the input sample times 32768, clamped to the interval from -32768 to
  32767 and then truncated toward zero to an integer; it lies in that interval, so the
  16-bit store never wraps. The blob's data is the encoding of these samples and its
  mimeType is the string audio/pcm;rate= followed by the sample rate.
\<close>

theorem createPcmBlob_samples:
  "length (pcmSamples data) = length data
   \<and> (\<forall>k < length data.
         pcmSamples data ! k = truncRat (max (- 32768) (min 32767 (data ! k * 32768)))
         \<and> - 32768 \<le> pcmSamples data ! k \<and> pcmSamples data ! k \<le> 32767)
   \<and> blob_data (createPcmBlob enc data sampleRate) = enc (pcmSamples data)
   \<and> mimeType (createPcmBlob enc data sampleRate) = ''audio/pcm;rate='' @ showNat sampleRate"
proof -
  have len: "length (pcmSamples data) = length data"
    by (simp add: pcmSamples_def pcmLoop_length)
  have nth: "pcmSamples data ! k = truncRat (max (- 32768) (min 32767 (data ! k * 32768)))"
    if "k < length data" for k
    using that by (simp add: pcmSamples_def pcmLoop_nth toInt16_clamped)
  have rng: "- 32768 \<le> pcmSamples data ! k \<and> pcmSamples data ! k \<le> 32767"
    if "k < length data" for k
    unfolding nth[OF that] by (rule truncRat_clamped) auto
  show ?thesis using len nth rng by (auto simp: createPcmBlob_def)
qed

theorem createPcmBlob_samples_witness:
  "(2::nat) < length [1 / 65536, 1, - 1, 3 / 4 :: rat]
   \<and> pcmSamples [1 / 65536, 1, - 1, 3 / 4] ! 2 = - 32768
   \<and> mimeType (createPcmBlob (\<lambda>x. []) [1 / 65536, 1, - 1, 3 / 4] 16000) = ''audio/pcm;rate=16000''"
proof -
  let ?d = "[1 / 65536, 1, - 1, 3 / 4 :: rat]"
  have len: "(2::nat) < length ?d" by simp
  have clamp: "max (- 32768) (min 32767 (?d ! 2 * 32768)) = - 32768" by simp
  have trunc: "truncRat (- 32768) = - 32768" by (simp add: truncRat_def)
  have rate: "showNat 16000 = ''16000''" by (simp add: showNat_digit showNat_more)
  note th = createPcmBlob_samples [of ?d "\<lambda>x. []" 16000]
  have "pcmSamples ?d ! 2 = truncRat (max (- 32768) (min 32767 (?d ! 2 * 32768)))"
    using th len by blast
  then have s2: "pcmSamples ?d ! 2 = - 32768"
    unfolding clamp trunc .
  have mt: "mimeType (createPcmBlob (\<lambda>x. []) ?d 16000) = ''audio/pcm;rate='' @ showNat 16000"
    using th by blast
  show ?thesis
    using len s2 mt unfolding rate by simp
qed

text \<open>
  C1. On an audio chunk, with the output context open, handleServerMessage schedules the
  chunk at the maximum of nextAudioStartTime and the context's current time and then sets
  nextAudioStartTime to that start plus the chunk's duration. When further messages are
  handled, none of them an interruption, and at each audio chunk among them the
  accumulated time is at or above the current time, then the schedule of before is kept,
  one entry is added per audio chunk, and from the first of these chunks on every
  scheduled start equals the previous chunk's start plus the previous chunk's duration.
\<close>

theorem audio_schedule_gap_free:
  assumes ctx: "outputAudioContextRef s"
    and chunk: "audioData m0 = Some d0" "d0 \<noteq> []" "\<not> interrupted m0"
    and rest: "list_all (\<lambda>(e, m). \<not> interrupted m) ems"
    and ahead: "staysAhead dur (handleServerMessage dur e0 m0 s) ems"
  shows "scheduled (handleServerMessage dur e0 m0 s)
           = scheduled s @ [(max (nextAudioStartTimeRef s) (currentTime e0), dur d0)]
         \<and> nextAudioStartTimeRef (handleServerMessage dur e0 m0 s)
           = max (nextAudioStartTimeRef s) (currentTime e0) + dur d0
         \<and> take (length (scheduled s)) (scheduled (handleMessages dur s ((e0, m0) # ems)))
           = scheduled s
         \<and> length (scheduled (handleMessages dur s ((e0, m0) # ems)))
           = length (scheduled s) + 1 + length (filter (\<lambda>(e, m). carriesAudio m) ems)
         \<and> (\<forall>k. length (scheduled s) \<le> k
                \<and> Suc k < length (scheduled (handleMessages dur s ((e0, m0) # ems))) \<longrightarrow>
               fst (scheduled (handleMessages dur s ((e0, m0) # ems)) ! Suc k)
                 = fst (scheduled (handleMessages dur s ((e0, m0) # ems)) ! k)
                   + snd (scheduled (handleMessages dur s ((e0, m0) # ems)) ! k))"
proof -
  let ?s1 = "handleServerMessage dur e0 m0 s"
  let ?s2 = "handleMessages dur s ((e0, m0) # ems)"
  let ?n = "length (scheduled s)"
  note one = handleServerMessage_chunk[OF chunk(1,2) ctx, of dur e0]
  have c1: "chained ?n ?s1"
    using one(1) one(2)[OF chunk(3)] ctx by (simp add: chained_def)
  have run: "chained ?n ?s2
     \<and> take (length (scheduled ?s1)) (scheduled ?s2) = scheduled ?s1
     \<and> length (scheduled ?s2)
         = length (scheduled ?s1) + length (filter (\<lambda>(e, m). carriesAudio m) ems)"
    using chained_run[OF c1 rest ahead] by simp
  have tk: "take ?n (scheduled ?s2) = scheduled s"
  proof -
    have "take ?n (scheduled ?s2) = take ?n (take (length (scheduled ?s1)) (scheduled ?s2))"
      using one(1) by (simp add: min_def)
    also have "\<dots> = take ?n (scheduled ?s1)" using run by simp
    also have "\<dots> = scheduled s" using one(1) by simp
    finally show ?thesis .
  qed
  have len: "length (scheduled ?s2) = ?n + 1 + length (filter (\<lambda>(e, m). carriesAudio m) ems)"
    using run one(1) by simp
  have gf: "gapFree (drop ?n (scheduled ?s2))" using run by (simp add: chained_def)
  have idx: "fst (scheduled ?s2 ! Suc k) = fst (scheduled ?s2 ! k) + snd (scheduled ?s2 ! k)"
    if k: "?n \<le> k" "Suc k < length (scheduled ?s2)" for k
  proof -
    obtain j where j: "k = ?n + j" using k(1) by (auto simp: le_iff_add)
    have "Suc j < length (drop ?n (scheduled ?s2))" using k(2) j by simp
    then have "fst (drop ?n (scheduled ?s2) ! Suc j)
        = fst (drop ?n (scheduled ?s2) ! j) + snd (drop ?n (scheduled ?s2) ! j)"
      using gf gapFree_nth by blast
    then show ?thesis using k(2) j by simp
  qed
  show ?thesis using one(1) one(2)[OF chunk(3)] tk len idx by simp
qed

theorem audio_schedule_gap_free_witness:
  "outputAudioContextRef ex_playing
   \<and> audioData (emptyMsg\<lparr>audioData := Some ''ab''\<rparr>) = Some ''ab''
   \<and> staysAhead (\<lambda>d. int (length d))
        (handleServerMessage (\<lambda>d. int (length d)) (envAt 5 1000)
           (emptyMsg\<lparr>audioData := Some ''ab''\<rparr>) ex_playing)
        [(envAt 6 1001, emptyMsg\<lparr>audioData := Some ''abc''\<rparr>)]
   \<and> scheduled (handleMessages (\<lambda>d. int (length d)) ex_playing
        [(envAt 5 1000, emptyMsg\<lparr>audioData := Some ''ab''\<rparr>),
         (envAt 6 1001, emptyMsg\<lparr>audioData := Some ''abc''\<rparr>)]) = [(5, 2), (7, 3)]"
  using audio_schedule_gap_free
          [of ex_playing "emptyMsg\<lparr>audioData := Some ''ab''\<rparr>" "''ab''"
              "[(envAt 6 1001, emptyMsg\<lparr>audioData := Some ''abc''\<rparr>)]"
              "\<lambda>d. int (length d)" "envAt 5 1000"]
  by (simp add: ex_playing_def initialHook_def emptyMsg_def envAt_def carriesAudio_def
        handleServerMessage_def playAudio_def stopOnInterrupted_def inputDelta_def outputDelta_def
        completeTurn_def runUpdaters_def scheduled_def Let_def)

text \<open>
  C4. On a message with interrupted set, every source queued at that point (the chunk of
  this very message included) is stopped, the set of queued sources becomes empty and
  nextAudioStartTime becomes 0. Hence, with the output context open and its current time
  not negative, the first audio chunk handled after the interruption, whatever messages
  without audio come in between, is scheduled at the context's current time.
\<close>

theorem interruption_resets_schedule:
  assumes intr: "interrupted m"
    and quiet: "list_all (\<lambda>(e, m). \<not> carriesAudio m) qs"
    and ctx: "outputAudioContextRef s"
    and chunk: "audioData m' = Some d" "d \<noteq> []"
    and now: "0 \<le> currentTime e'"
  shows "audioSourcesRef (handleServerMessage dur e m s) = []
         \<and> nextAudioStartTimeRef (handleServerMessage dur e m s) = 0
         \<and> effects (handleServerMessage dur e m s)
             = effects (playAudio dur e m s) @ map SourceStop (audioSourcesRef (playAudio dur e m s))
         \<and> set (audioSourcesRef s) \<subseteq> set (audioSourcesRef (playAudio dur e m s))
         \<and> scheduled (handleServerMessage dur e' m'
               (handleMessages dur (handleServerMessage dur e m s) qs))
             = scheduled (handleServerMessage dur e m s) @ [(currentTime e', dur d)]"
proof -
  let ?s1 = "handleServerMessage dur e m s"
  let ?s2 = "handleMessages dur ?s1 qs"
  have a: "audioSourcesRef ?s1 = []" and z: "nextAudioStartTimeRef ?s1 = 0"
    and ef: "effects ?s1
             = effects (playAudio dur e m s) @ map SourceStop (audioSourcesRef (playAudio dur e m s))"
    using intr by (simp_all add: handleServerMessage_def stopOnInterrupted_def)
  have sub: "set (audioSourcesRef s) \<subseteq> set (audioSourcesRef (playAudio dur e m s))"
    by (auto simp: playAudio_def Let_def split: option.splits)
  have q: "scheduled ?s2 = scheduled ?s1 \<and> nextAudioStartTimeRef ?s2 = 0
           \<and> outputAudioContextRef ?s2 = outputAudioContextRef ?s1"
    by (rule quiet_run[OF quiet z])
  have ctx2: "outputAudioContextRef ?s2" using q ctx by simp
  have "scheduled (handleServerMessage dur e' m' ?s2)
          = scheduled ?s2 @ [(max (nextAudioStartTimeRef ?s2) (currentTime e'), dur d)]"
    by (rule handleServerMessage_chunk(1)[OF chunk ctx2])
  then have "scheduled (handleServerMessage dur e' m' ?s2) = scheduled ?s1 @ [(currentTime e', dur d)]"
    using q now by (simp add: max_def)
  then show ?thesis using a z ef sub by simp
qed

theorem interruption_resets_schedule_witness:
  "interrupted (emptyMsg\<lparr>interrupted := True\<rparr>)
   \<and> outputAudioContextRef ex_queued
   \<and> audioSourcesRef ex_queued = [0]
   \<and> nextAudioStartTimeRef ex_queued = 7
   \<and> (0::int) \<le> currentTime (envAt (6::int) 1003)
   \<and> audioSourcesRef (handleServerMessage (\<lambda>d. int (length d)) (envAt 5 1001)
         (emptyMsg\<lparr>interrupted := True\<rparr>) ex_queued) = []
   \<and> effects (handleServerMessage (\<lambda>d. int (length d)) (envAt 5 1001)
         (emptyMsg\<lparr>interrupted := True\<rparr>) ex_queued)
       = [SourceConnect 0 False, SourceStart 0 5 2, SourceStop 0]
   \<and> scheduled (handleServerMessage (\<lambda>d. int (length d)) (envAt 6 1003)
         (emptyMsg\<lparr>audioData := Some ''abc''\<rparr>)
         (handleMessages (\<lambda>d. int (length d))
            (handleServerMessage (\<lambda>d. int (length d)) (envAt 5 1001)
               (emptyMsg\<lparr>interrupted := True\<rparr>) ex_queued)
            [(envAt 5 1002, emptyMsg\<lparr>outputTranscription := Some ''ah''\<rparr>)]))
       = [(5, 2), (6, 3)]"
  using interruption_resets_schedule
          [of "emptyMsg\<lparr>interrupted := True\<rparr>"
              "[(envAt 5 1002, emptyMsg\<lparr>outputTranscription := Some ''ah''\<rparr>)]"
              ex_queued "emptyMsg\<lparr>audioData := Some ''abc''\<rparr>" "''abc''" "envAt 6 1003"
              "\<lambda>d. int (length d)" "envAt 5 1001"]
  by (simp add: ex_queued_def ex_playing_def initialHook_def emptyMsg_def envAt_def carriesAudio_def
        handleServerMessage_def playAudio_def stopOnInterrupted_def inputDelta_def outputDelta_def
        completeTurn_def runUpdaters_def scheduled_def truthyId_def appendEntry_def Let_def)

text \<open>
  C6. connect returns the state unchanged whenever the status is not idle or a session
  reference exists. A failure inside connect, and the session's error callback, leave the
  status at error, the close callback leaves it at disconnected, and each time the state is
  the one cleanup leaves behind. From a state whose status is error or disconnected, after
  any run of events the status is still not idle, connect is still without effect, no
  further session has been opened, and a missing session reference is still missing.
\<close>

theorem no_reconnection:
  "(status s \<noteq> Idle \<or> sessionPromiseRef s \<longrightarrow> connect outcome s = s)
   \<and> (status s = Idle \<and> \<not> sessionPromiseRef s \<and> outcome \<noteq> LiveConnectReturned \<longrightarrow>
        status (connect outcome s) = Error \<and> released (connect outcome s)
        \<and> sessionsOpened (connect outcome s) = sessionsOpened s)
   \<and> status (onerror s) = Error \<and> released (onerror s)
   \<and> status (onclose s) = Disconnected \<and> released (onclose s)
   \<and> (status s = Error \<or> status s = Disconnected \<longrightarrow>
        status (run dur s evs) \<noteq> Idle
        \<and> connect outcome (run dur s evs) = run dur s evs
        \<and> sessionsOpened (run dur s evs) = sessionsOpened s
        \<and> (\<not> sessionPromiseRef s \<longrightarrow> \<not> sessionPromiseRef (run dur s evs)))"
proof -
  have guard: "status s \<noteq> Idle \<or> sessionPromiseRef s \<longrightarrow> connect outcome s = s"
    by (simp add: connect_guard)
  have fail: "status s = Idle \<and> \<not> sessionPromiseRef s \<and> outcome \<noteq> LiveConnectReturned \<longrightarrow>
        status (connect outcome s) = Error \<and> released (connect outcome s)
        \<and> sessionsOpened (connect outcome s) = sessionsOpened s"
    by (cases outcome) (simp_all add: connect_def Let_def cleanup_released, simp_all add: sessionsOpened_def cleanup_def)
  have cb1: "status (onerror s) = Error" and cb2: "released (onerror s)"
    and cb3: "status (onclose s) = Disconnected" and cb4: "released (onclose s)"
    by (simp_all add: onerror_def onclose_def cleanup_released)
  have after: "status s = Error \<or> status s = Disconnected \<longrightarrow>
        status (run dur s evs) \<noteq> Idle
        \<and> connect outcome (run dur s evs) = run dur s evs
        \<and> sessionsOpened (run dur s evs) = sessionsOpened s
        \<and> (\<not> sessionPromiseRef s \<longrightarrow> \<not> sessionPromiseRef (run dur s evs))"
  proof
    assume "status s = Error \<or> status s = Disconnected"
    then have ni: "status s \<noteq> Idle" by auto
    note r = run_not_idle[OF ni, of dur evs]
    from r have "connect outcome (run dur s evs) = run dur s evs" by (simp add: connect_guard)
    with r show "status (run dur s evs) \<noteq> Idle
        \<and> connect outcome (run dur s evs) = run dur s evs
        \<and> sessionsOpened (run dur s evs) = sessionsOpened s
        \<and> (\<not> sessionPromiseRef s \<longrightarrow> \<not> sessionPromiseRef (run dur s evs))" by simp
  qed
  show ?thesis by (intro conjI guard fail cb1 cb2 cb3 cb4 after)
qed

theorem no_reconnection_witness:
  "status (initialHook :: int hook) = Idle
   \<and> status (connect ApiKeyMissing (initialHook :: int hook)) = Error
   \<and> sessionsOpened (connect ApiKeyMissing (initialHook :: int hook)) = 0
   \<and> status ex_connected = Connecting
   \<and> connect LiveConnectReturned ex_connected = ex_connected
   \<and> status (onerror ex_connected) = Error
   \<and> status (run (\<lambda>d. 0) (onerror ex_connected) [Connect LiveConnectReturned, OnOpen True, OnClose])
        = Disconnected
   \<and> sessionsOpened (run (\<lambda>d. 0) (onerror ex_connected) [Connect LiveConnectReturned, OnOpen True, OnClose])
        = 1
   \<and> \<not> sessionPromiseRef (run (\<lambda>d. 0) (onerror ex_connected)
           [Connect LiveConnectReturned, OnOpen True, OnClose])"
  using no_reconnection [of "initialHook :: int hook" ApiKeyMissing "\<lambda>d. 0" "[]"]
        no_reconnection [of ex_connected LiveConnectReturned "\<lambda>d. 0" "[]"]
        no_reconnection [of "onerror ex_connected" LiveConnectReturned "\<lambda>d. 0"
                            "[Connect LiveConnectReturned, OnOpen True, OnClose]"]
  by (simp add: ex_connected_def initialHook_def connect_def onerror_def onclose_def onopen_def
        cleanup_def run_def sessionsOpened_def released_def Let_def)

text \<open>
  C2 (the text of the user entry, and of the mary entry, is the concatenation of the
  deltas of its kind since the last turn completion) fails on the code where two entries
  get the same id. After the input delta "hola" and the output delta "hi" were handled in
  one millisecond, the next output delta " there" rewrites the user entry as well: its text
  is "hi there", not the concatenation "hola" of the input deltas.
\<close>

theorem same_millisecond_overwrites_transcript:
  "map entry_text (transcripts (handleServerMessage (\<lambda>d. 0) (envAt 0 1001)
      (emptyMsg\<lparr>outputTranscription := Some '' there''\<rparr>) ex_sameMillisecond))
     = [''hi there'', ''hi there'']
   \<and> map speaker (transcripts (handleServerMessage (\<lambda>d. 0) (envAt 0 1001)
      (emptyMsg\<lparr>outputTranscription := Some '' there''\<rparr>) ex_sameMillisecond))
     = [User, Mary]"
  using ex_sameMillisecond_eval
  by (simp add: emptyMsg_def envAt_def
        handleServerMessage_def playAudio_def stopOnInterrupted_def inputDelta_def outputDelta_def
        completeTurn_def runUpdaters_def truthyId_def appendEntry_def replaceText_def Let_def)

text \<open>
  C3 (turn completion marks the user entry and the mary entry of the turn final with their
  accumulated text, attaches the extracted sources to the mary entry, and resets the
  accumulators and the id references) fails on the code. The two finalizing updaters read
  the id references when React runs them, which is after lines 185 to 188 have reset the
  references to null, so they match no entry: after the turn with the deltas "hola" and
  "hi" is completed by a message with three extractable sources, both entries are still
  not final and the mary entry has no sources. The resets happen as claimed.
\<close>

theorem turn_completion_leaves_entries_unfinished:
  "map (\<lambda>t. (speaker t, entry_text t, isFinal t, sources t))
     (transcripts (handleServerMessage (\<lambda>d. 0) (envAt 0 1002) ex_complete ex_turn))
     = [(User, ''hola'', False, None), (Mary, ''hi'', False, None)]
   \<and> length (extractSources reviewTitleHook (msg_groundingChunks ex_complete)) = 3
   \<and> currentUserTranscriptIdRef (handleServerMessage (\<lambda>d. 0) (envAt 0 1002) ex_complete ex_turn)
       = None
   \<and> currentMaryTranscriptIdRef (handleServerMessage (\<lambda>d. 0) (envAt 0 1002) ex_complete ex_turn)
       = None
   \<and> currentInputTranscriptionRef (handleServerMessage (\<lambda>d. 0) (envAt 0 1002) ex_complete ex_turn)
       = []
   \<and> currentOutputTranscriptionRef (handleServerMessage (\<lambda>d. 0) (envAt 0 1002) ex_complete ex_turn)
       = []"
proof -
  have srcs: "length (extractSources reviewTitleHook (msg_groundingChunks ex_complete)) = 3"
    by (simp add: ex_complete_def emptyMsg_def ex_chunks_def extractSources_def pushChunk_def Let_def)
  show ?thesis
    using ex_turn_eval srcs
    by (simp add: ex_complete_def emptyMsg_def envAt_def
          handleServerMessage_def playAudio_def stopOnInterrupted_def inputDelta_def outputDelta_def
          completeTurn_def runUpdaters_def truthyId_def finalizeUser_def finalizeMary_def Let_def)
qed

text \<open>
  C5 (a delta update that does not append replaces the text of the single entry of the
  current turn and leaves every other entry unchanged) fails on the code in the same
  state: the replace updater for the output delta changes the mary entry at position 1 and
  also the user entry at position 0.
\<close>

theorem same_millisecond_replaces_two_entries:
  "transcripts ex_sameMillisecond ! 0 \<noteq>
     replaceText (currentMaryTranscriptIdRef ex_sameMillisecond) ''hi there''
       (transcripts ex_sameMillisecond) ! 0
   \<and> transcripts ex_sameMillisecond ! 1 \<noteq>
     replaceText (currentMaryTranscriptIdRef ex_sameMillisecond) ''hi there''
       (transcripts ex_sameMillisecond) ! 1
   \<and> speaker (transcripts ex_sameMillisecond ! 0) = User"
  using ex_sameMillisecond_eval
  by (simp add: replaceText_def)

end
